theory Spec2Isabelle
  imports Complex_Main
begin

section \<open>The sketch: a shallow embedding of sketch.js\<close>

text \<open>
  The sketch is a p5.js program: a handful of global bindings, a class \<open>FlowField\<close>,
  the callbacks \<open>setup\<close>, \<open>draw\<close>, \<open>mouseMoved\<close> and \<open>windowResized\<close>, and the
  renderers \<open>draw\<close> calls.  Numbers are modelled as mathematical reals; the rounding of
  IEEE doubles is modelled where it decides what the sketch does: in the two loop counters
  that step by 0.02, and in the stores into \<open>pixels\<close>.  The library functions of p5 the
  sketch calls are written out from their documented formulas, and what the host decides
  (which call of the rendering backend throws, what \<open>random\<close> and \<open>noise\<close> return,
  what the canvas holds when \<open>loadPixels\<close> reads it, the frame number) is a parameter
  of type \<open>host\<close> or of the callback.
\<close>

subsection \<open>Doubles\<close>

text \<open>
  Rounding to the nearest integer, ties to the even one.
\<close>

definition round_half_even :: "real \<Rightarrow> int" where
  "round_half_even v =
     (let f = \<lfloor>v\<rfloor>; d = v - real_of_int f
      in if d < 1 / 2 then f else if d > 1 / 2 then f + 1
         else if even f then f else f + 1)"

text \<open>
  \<open>bits n\<close> is the number of binary digits of \<open>n\<close>, and \<open>binade x\<close> the exponent
  \<open>e\<close> with \<open>2^e \<le> |x| < 2^(e+1)\<close>.  \<open>double x\<close> is the double nearest to \<open>x\<close>: a
  significand of 53 binary digits, ties to the even significand (the range of the exponent
  is not modelled: no overflow and no subnormal numbers).  A numeric literal of the script
  and the result of \<open>+=\<close> and \<open>-=\<close> on a counter are rounded this way.
\<close>

fun bits :: "nat \<Rightarrow> nat" where
  "bits n = (if n = 0 then 0 else bits (n div 2) + 1)"

declare bits.simps [simp del]

definition binade :: "real \<Rightarrow> int" where
  "binade x =
     (if 1 \<le> \<bar>x\<bar> then int (bits (nat \<lfloor>\<bar>x\<bar>\<rfloor>)) - 1
      else - int (bits (nat (\<lceil>1 / \<bar>x\<bar>\<rceil> - 1))))"

definition double :: "real \<Rightarrow> real" where
  "double x =
     (if x = 0 then 0
      else let e = binade x
           in if 52 \<le> e
              then real_of_int (round_half_even (x / 2 ^ nat (e - 52))) * 2 ^ nat (e - 52)
              else real_of_int (round_half_even (x * 2 ^ nat (52 - e))) / 2 ^ nat (52 - e))"

subsection \<open>Library functions of p5 used by the sketch\<close>

text \<open>\<open>map(n, start1, stop1, start2, stop2)\<close>, without clamping.\<close>

definition map_p5 :: "real \<Rightarrow> real \<Rightarrow> real \<Rightarrow> real \<Rightarrow> real \<Rightarrow> real" where
  "map_p5 n start1 stop1 start2 stop2 =
     (n - start1) / (stop1 - start1) * (stop2 - start2) + start2"

text \<open>\<open>constrain(n, low, high)\<close> is \<open>Math.max(Math.min(n, high), low)\<close>.\<close>

definition constrain :: "real \<Rightarrow> real \<Rightarrow> real \<Rightarrow> real" where
  "constrain n low high = max (min n high) low"

text \<open>\<open>dist(x1, y1, x2, y2)\<close>: the Euclidean distance of two points.\<close>

definition dist_p5 :: "real \<Rightarrow> real \<Rightarrow> real \<Rightarrow> real \<Rightarrow> real" where
  "dist_p5 x1 y1 x2 y2 = sqrt ((x2 - x1)\<^sup>2 + (y2 - y1)\<^sup>2)"

text \<open>
  \<open>random(lo, hi)\<close> and \<open>random(hi)\<close>, from the unit draw \<open>u\<close> the generator
  returns (\<open>0 \<le> u < 1\<close>).
\<close>

definition random2 :: "real \<Rightarrow> real \<Rightarrow> real \<Rightarrow> real" where
  "random2 u lo hi = u * (hi - lo) + lo"

definition random1 :: "real \<Rightarrow> real \<Rightarrow> real" where
  "random1 u hi = u * hi"

definition TWO_PI :: real where
  "TWO_PI = 2 * pi"

text \<open>
  A \<open>p5.Vector\<close> of the sketch has the two components the sketch reads (the third one
  stays 0).  \<open>createVector\<close>, \<open>p5.Vector.fromAngle\<close> (length 1), \<open>mult\<close> and
  \<open>add\<close> on values; \<open>mag\<close> is the length.
\<close>

type_synonym vec = "real \<times> real"

definition createVector :: "real \<Rightarrow> real \<Rightarrow> vec" where
  "createVector x y = (x, y)"

definition fromAngle :: "real \<Rightarrow> vec" where
  "fromAngle angle = (cos angle, sin angle)"

definition vmult :: "vec \<Rightarrow> real \<Rightarrow> vec" where
  "vmult v n = (fst v * n, snd v * n)"

definition vadd :: "vec \<Rightarrow> vec \<Rightarrow> vec" where
  "vadd v w = (fst v + fst w, snd v + snd w)"

definition mag :: "vec \<Rightarrow> real" where
  "mag v = sqrt ((fst v)\<^sup>2 + (snd v)\<^sup>2)"

text \<open>
  Vector objects that are stored and later mutated in place live in a store: an address is
  an index of the list, \<open>new\<close> appends, \<open>mult\<close> overwrites the object at its address.
\<close>

type_synonym vstore = "vec list"

definition valloc :: "vec \<Rightarrow> vstore \<Rightarrow> nat \<times> vstore" where
  "valloc v hp = (length hp, hp @ [v])"

definition vmult_at :: "nat \<Rightarrow> real \<Rightarrow> vstore \<Rightarrow> vstore" where
  "vmult_at a n hp = hp[a := vmult (hp ! a) n]"

text \<open>
  A JavaScript array of vector references: an element is an address or a hole
  (\<open>undefined\<close>).  A read outside the array is \<open>undefined\<close>; a write at or past the
  length extends the array with holes.
\<close>

definition js_read :: "nat option list \<Rightarrow> int \<Rightarrow> nat option" where
  "js_read xs i = (if 0 \<le> i \<and> nat i < length xs then xs ! nat i else None)"

definition js_write :: "nat option list \<Rightarrow> nat \<Rightarrow> nat \<Rightarrow> nat option list" where
  "js_write xs i a =
     (if i < length xs then xs[i := Some a]
      else xs @ replicate (i - length xs) None @ [Some a])"

subsection \<open>The rendering backend\<close>

text \<open>
  The calls the sketch makes into p5 and the 2-D drawing context, with their arguments. A
  colour given by spreading an array, or built by \<open>color(...)\<close>, is the list of its
  components; the \<open>rgba(0,0,0,a)\<close> strings of the gradient are their alpha \<open>a\<close>.
\<close>

datatype cmd =
    CreateCanvas real real
  | PixelDensity real
  | ColorModeRGB real real real real
  | FrameRate real
  | Smooth
  | CanvasStylePixelated
  | ResizeCanvas real real
  | Background real real real
  | Translate real real
  | Push
  | Pop
  | NoStroke
  | NoFill
  | Fill "real list"
  | Stroke "real list"
  | StrokeWeight real
  | BeginShape
  | Vertex real real
  | CurveVertex real real
  | EndShape bool
  | Ellipse real real real real
  | Rect real real real real
  | BlendModeOverlay
  | CreateRadialGradient real real real real real real
  | AddColorStopBlack real real
  | SetFillStyleGradient
  | FillRect real real real real
  | LoadPixels
  | UpdatePixels "nat list"

datatype error = Thrown cmd | RangeError | TypeError

datatype logline = SetupFailed error | NotInitialized | DrawCycleFailed error

text \<open>What the host decides.\<close>

record host =
  throws :: "cmd \<Rightarrow> bool"
  rnd :: "nat \<Rightarrow> real"
  noise :: "real \<Rightarrow> real \<Rightarrow> real \<Rightarrow> real"
  raster :: "cmd list \<Rightarrow> nat list"

subsection \<open>Global state\<close>

record oscillator =
  frequency :: real
  amplitude :: real
  phase :: real
  speed :: real

record FlowField =
  resolution :: real
  cols :: int
  rows :: int
  field :: "nat option list"
  particleSpeed :: real

text \<open>
  The four bindings of the script (\<open>willReadFrequently\<close> is never read), and what the
  sketch shares with p5: the canvas size \<open>width\<close>, \<open>height\<close>, the array \<open>pixels\<close>,
  the vector objects, whether the animation loop is on (\<open>noLoop()\<close> turns it off), the
  lines written by \<open>console.error\<close>, the calls the backend has accepted, and how many
  draws of \<open>random\<close> have been taken.
\<close>

record state =
  flowfield :: "FlowField option"
  globalTime :: real
  emotionalIntensity :: real
  distortionField :: "oscillator list option"
  width :: real
  height :: real
  pixels :: "nat list"
  vectors :: vstore
  looping :: bool
  console :: "logline list"
  canvas :: "cmd list"
  drawn :: nat

text \<open>The bindings as the script's top level leaves them.\<close>

definition load :: "state \<Rightarrow> state" where
  "load s = s\<lparr>flowfield := None, globalTime := 0, emotionalIntensity := 0,
              distortionField := Some []\<rparr>"

text \<open>
  A sequence of backend calls: each call the backend accepts is recorded, the first one
  that throws ends the sequence with its exception.
\<close>

fun emit :: "host \<Rightarrow> cmd list \<Rightarrow> state \<Rightarrow> error option \<times> state" where
  "emit h [] s = (None, s)"
| "emit h (c # cs) s =
     (if throws h c then (Some (Thrown c), s)
      else emit h cs (s\<lparr>canvas := canvas s @ [c]\<rparr>))"

text \<open>Sequencing of two steps: the second one runs only if the first did not throw.\<close>

definition and_then ::
  "error option \<times> state \<Rightarrow> (state \<Rightarrow> error option \<times> state) \<Rightarrow> error option \<times> state" where
  "and_then r f = (case r of (Some e, s) \<Rightarrow> (Some e, s) | (None, s) \<Rightarrow> f s)"

subsection \<open>The class FlowField\<close>

text \<open>
  The constructor reads the globals \<open>width\<close> and \<open>height\<close>. \<open>new Array(n)\<close> throws
  a RangeError unless \<open>n\<close> is an integer with \<open>0 \<le> n < 2^32\<close>; a zero resolution
  makes \<open>n\<close> infinite or NaN, which is refused as well.
\<close>

definition FlowField_new :: "state \<Rightarrow> real \<Rightarrow> error + FlowField" where
  "FlowField_new s res =
     (let c = \<lceil>width s / res\<rceil>; r = \<lceil>height s / res\<rceil>
      in if res = 0 \<or> c * r < 0 \<or> 2 ^ 32 \<le> c * r then Inl RangeError
         else Inr \<lparr>resolution = res, cols = c, rows = r,
                   field = replicate (nat (c * r)) None, particleSpeed = 0.15\<rparr>)"

text \<open>
  The body of the inner loop of \<open>update\<close>: the angle of the cell, a new unit vector of
  that angle, scaled in place by \<open>particleSpeed\<close>, stored at \<open>x + y * cols\<close>.
\<close>

definition cell_angle :: "host \<Rightarrow> real \<Rightarrow> nat \<Rightarrow> real \<Rightarrow> nat \<Rightarrow> real \<Rightarrow> real" where
  "cell_angle h time x xoff y yoff =
     noise h xoff yoff (time * 0.015) * TWO_PI * 2
       + sin (time * 0.08 + real x * 0.1 + real y * 0.1) * 0.3"

definition update_cell ::
  "host \<Rightarrow> real \<Rightarrow> nat \<Rightarrow> real \<Rightarrow> nat \<Rightarrow> real \<Rightarrow> FlowField \<times> vstore \<Rightarrow> FlowField \<times> vstore" where
  "update_cell h time x xoff y yoff p =
     (let ff = fst p; hp = snd p;
          index = int x + int y * cols ff;
          angle = cell_angle h time x xoff y yoff;
          (a, hp1) = valloc (fromAngle angle) hp;
          hp2 = vmult_at a (particleSpeed ff) hp1
      in (ff\<lparr>field := js_write (field ff) (nat index) a\<rparr>, hp2))"

function update_rows ::
  "host \<Rightarrow> real \<Rightarrow> nat \<Rightarrow> real \<Rightarrow> nat \<Rightarrow> real \<Rightarrow> FlowField \<times> vstore \<Rightarrow> FlowField \<times> vstore" where
  "update_rows h time x xoff y yoff p =
     (if int y < rows (fst p)
      then update_rows h time x xoff (y + 1) (yoff + 0.1) (update_cell h time x xoff y yoff p)
      else p)"
  by pat_completeness auto
termination
  by (relation "measure (\<lambda>(h, time, x, xoff, y, yoff, p). nat (rows (fst p)) - y)")
     (auto simp: update_cell_def Let_def split: prod.splits)

declare update_rows.simps [simp del]

lemma update_cell_dims:
  "cols (fst (update_cell h time x xoff y yoff p)) = cols (fst p)"
  "rows (fst (update_cell h time x xoff y yoff p)) = rows (fst p)"
  "resolution (fst (update_cell h time x xoff y yoff p)) = resolution (fst p)"
  "particleSpeed (fst (update_cell h time x xoff y yoff p)) = particleSpeed (fst p)"
  by (simp_all add: update_cell_def Let_def split: prod.splits)

lemma update_rows_dims:
  "cols (fst (update_rows h time x xoff y yoff p)) = cols (fst p) \<and>
   rows (fst (update_rows h time x xoff y yoff p)) = rows (fst p) \<and>
   resolution (fst (update_rows h time x xoff y yoff p)) = resolution (fst p) \<and>
   particleSpeed (fst (update_rows h time x xoff y yoff p)) = particleSpeed (fst p)"
proof (induction h time x xoff y yoff p rule: update_rows.induct)
  case (1 h time x xoff y yoff p)
  show ?case
  proof (cases "int y < rows (fst p)")
    case True
    then show ?thesis
      using "1.IH" by (subst (1 2 3 4) update_rows.simps) (simp add: update_cell_dims)
  next
    case False
    then show ?thesis by (subst (1 2 3 4) update_rows.simps) simp
  qed
qed

function update_cols ::
  "host \<Rightarrow> real \<Rightarrow> nat \<Rightarrow> real \<Rightarrow> FlowField \<times> vstore \<Rightarrow> FlowField \<times> vstore" where
  "update_cols h time x xoff p =
     (if int x < cols (fst p)
      then update_cols h time (x + 1) (xoff + 0.1) (update_rows h time x xoff 0 0 p)
      else p)"
  by pat_completeness auto
termination
  by (relation "measure (\<lambda>(h, time, x, xoff, p). nat (cols (fst p)) - x)")
     (simp_all add: update_rows_dims)

declare update_cols.simps [simp del]

definition update :: "host \<Rightarrow> FlowField \<Rightarrow> vstore \<Rightarrow> real \<Rightarrow> FlowField \<times> vstore" where
  "update h ff hp time = update_cols h time 0 0 (ff, hp)"

text \<open>
  \<open>getForce\<close>: the cell's vector, or a new zero vector where the cell is
  \<open>undefined\<close>; then \<open>copy()\<close> makes a new object and \<open>mult\<close> scales that one.
  The result is the address of the new object, with the store.
\<close>

definition getForce :: "FlowField \<Rightarrow> vstore \<Rightarrow> real \<Rightarrow> real \<Rightarrow> real \<Rightarrow> nat \<times> vstore" where
  "getForce ff hp x y intensity =
     (let col = \<lfloor>constrain (x / resolution ff) 0 (of_int (cols ff - 1))\<rfloor>;
          row = \<lfloor>constrain (y / resolution ff) 0 (of_int (rows ff - 1))\<rfloor>;
          (force, hp1) = (case js_read (field ff) (col + row * cols ff) of
                            Some a \<Rightarrow> (a, hp)
                          | None \<Rightarrow> valloc (createVector 0 0) hp);
          (c, hp2) = valloc (hp1 ! force) hp1
      in (c, vmult_at c intensity hp2))"

text \<open>The index \<open>getForce\<close> reads the field at.\<close>

definition force_index :: "FlowField \<Rightarrow> real \<Rightarrow> real \<Rightarrow> int" where
  "force_index ff x y =
     \<lfloor>constrain (x / resolution ff) 0 (of_int (cols ff - 1))\<rfloor>
       + \<lfloor>constrain (y / resolution ff) 0 (of_int (rows ff - 1))\<rfloor> * cols ff"

subsection \<open>The distortion field\<close>

definition getComplexDistortion :: "oscillator list \<Rightarrow> real \<Rightarrow> real \<Rightarrow> real \<Rightarrow> vec" where
  "getComplexDistortion df x y time =
     fold (\<lambda>d distortion.
             let dx = sin (x * frequency d + time * speed d + phase d) * amplitude d;
                 dy = cos (y * frequency d + time * speed d + phase d + pi / 4) * amplitude d
             in vadd distortion (createVector dx dy))
          df (createVector 0 0)"

subsection \<open>setup\<close>

text \<open>
  The loop that fills the distortion field: four draws of \<open>random\<close> for each of the
  eight oscillators, in the order the object literal lists them.  \<open>push\<close> on a binding
  that holds no array throws a TypeError.
\<close>

function initDistortion :: "host \<Rightarrow> nat \<Rightarrow> state \<Rightarrow> error option \<times> state" where
  "initDistortion h i s =
     (if i < 8 then
        (case distortionField s of
           None \<Rightarrow> (Some TypeError, s)
         | Some df \<Rightarrow>
             initDistortion h (i + 1)
               (s\<lparr>distortionField := Some (df @
                     [\<lparr>frequency = random2 (rnd h (drawn s)) 0.002 0.003,
                       amplitude = random2 (rnd h (drawn s + 1)) 1.5 3,
                       phase = random1 (rnd h (drawn s + 2)) TWO_PI,
                       speed = random2 (rnd h (drawn s + 3)) 0.0005 0.0008\<rparr>]),
                   drawn := drawn s + 4\<rparr>))
      else (None, s))"
  by pat_completeness auto
termination
  by (relation "measure (\<lambda>(h, i, s). 8 - i)") auto

declare initDistortion.simps [simp del]

definition setup_try :: "host \<Rightarrow> state \<Rightarrow> error option \<times> state" where
  "setup_try h s =
     (case FlowField_new s 20 of
        Inl e \<Rightarrow> (Some e, s)
      | Inr ff \<Rightarrow>
          and_then (initDistortion h 0 (s\<lparr>flowfield := Some ff\<rparr>))
            (emit h [FrameRate 30, Smooth, CanvasStylePixelated]))"

text \<open>
  The callback \<open>setup\<close> (the name is reserved here): the three calls before the \<open>try\<close> (taken to succeed: without them there is
  no canvas), then the \<open>try\<close> block and its \<open>catch\<close>.
\<close>

definition setup_sketch :: "host \<Rightarrow> state \<Rightarrow> state" where
  "setup_sketch h s =
     (let s0 = s\<lparr>width := 600, height := 800,
                 canvas := canvas s @ [CreateCanvas 600 800, PixelDensity 1,
                                       ColorModeRGB 255 255 255 1]\<rparr>
      in case setup_try h s0 of
           (Some e, s1) \<Rightarrow> s1\<lparr>console := console s1 @ [SetupFailed e], looping := False\<rparr>
         | (None, s1) \<Rightarrow> s1)"

subsection \<open>The colour palette\<close>

definition BODY_MAIN :: "real list" where "BODY_MAIN = [55, 45, 40]"
definition BODY_SHADOW :: "real list" where "BODY_SHADOW = [40, 35, 30]"
definition HEAD_MAIN :: "real list" where "HEAD_MAIN = [235, 225, 205]"
definition HEAD_GLOW :: "real list" where "HEAD_GLOW = [245, 235, 215]"
definition ARMS_MAIN :: "real list" where "ARMS_MAIN = [65, 55, 45]"
definition BACKGROUND :: "real list" where "BACKGROUND = [220, 215, 205]"

subsection \<open>The figure\<close>

text \<open>
  A renderer only reads globals and calls the backend, so it is the list of its calls, in
  order; \<open>emit\<close> runs the list against the backend.  The renderers read the binding
  \<open>distortionField\<close> through \<open>getComplexDistortion\<close>; \<open>draw\<close> hands them the array
  it has found there.  A loop is a recursive function of its counter.  The bodies of the
  two loops of \<open>drawBody\<close> are \<open>body_left_vertex\<close> and \<open>body_right_vertex\<close>; their
  counter is a double that steps by the double 0.02, and the loop, which ends for some
  starts of the counter only, returns \<open>None\<close> where it does not end.
\<close>

definition body_left_vertex :: "vec \<Rightarrow> state \<Rightarrow> real \<Rightarrow> cmd" where
  "body_left_vertex baseDistortion s t =
     (let y = map_p5 t 0 1 (- 120) 180;
          w = map_p5 (sin (t * pi)) 0 1 30 40;
          distortion = vmult baseDistortion (1 - t * 0.3);
          sway = sin (t * pi + globalTime s) * (2 + emotionalIntensity s);
          xLeft = - w + sway + fst distortion
      in Vertex xLeft (y + snd distortion))"

partial_function (option) body_left :: "vec \<Rightarrow> state \<Rightarrow> real \<Rightarrow> cmd list option" where
  "body_left baseDistortion s t =
     (if t \<le> 1 then
        Option.bind (body_left baseDistortion s (double (t + double 0.02)))
          (\<lambda>rest. Some (body_left_vertex baseDistortion s t # rest))
      else Some [])"

definition body_right_vertex :: "vec \<Rightarrow> state \<Rightarrow> real \<Rightarrow> cmd" where
  "body_right_vertex baseDistortion s t =
     (let y = map_p5 t 0 1 (- 120) 180;
          w = map_p5 (sin (t * pi)) 0 1 30 40;
          distortion = vmult baseDistortion (1 - t * 0.3);
          sway = sin (t * pi + globalTime s) * (2 + emotionalIntensity s);
          xRight = w + sway + fst distortion
      in Vertex xRight (y + snd distortion))"

partial_function (option) body_right :: "vec \<Rightarrow> state \<Rightarrow> real \<Rightarrow> cmd list option" where
  "body_right baseDistortion s t =
     (if t \<ge> 0 then
        Option.bind (body_right baseDistortion s (double (t - double 0.02)))
          (\<lambda>rest. Some (body_right_vertex baseDistortion s t # rest))
      else Some [])"

text \<open>
  Both loops end (\<open>body_left_returns\<close> and \<open>body_right_returns\<close> below), so
  \<open>drawBody\<close> has their vertices.
\<close>

definition drawBody :: "bool \<Rightarrow> vec \<Rightarrow> state \<Rightarrow> cmd list" where
  "drawBody isShadow baseDistortion s =
     (let bodyColor = (if isShadow then BODY_SHADOW else BODY_MAIN)
      in [Push, NoStroke,
          Fill (bodyColor @ [if isShadow then 0.25 else 0.95 + sin (globalTime s * 0.5) * 0.05]),
          BeginShape]
         @ the (body_left baseDistortion s 0)
         @ the (body_right baseDistortion s 1)
         @ [EndShape True, Pop])"

definition drawArmConnection :: "real \<Rightarrow> real \<Rightarrow> real \<Rightarrow> cmd list" where
  "drawArmConnection side startX startY =
     [NoStroke, Fill BODY_MAIN, BeginShape,
      Vertex (startX - side * 10) (startY - 5),
      Vertex (startX + side * 10) (startY - 5),
      Vertex (startX + side * 12) (startY + 15),
      Vertex (startX - side * 6) (startY + 15),
      EndShape True]"

function arm_points :: "vec \<Rightarrow> state \<Rightarrow> real \<Rightarrow> real \<Rightarrow> real \<Rightarrow> nat \<Rightarrow> cmd list" where
  "arm_points baseDistortion s side startX startY i =
     (if i < 8 then
        (let t = real i / 7;
             y = startY + t * 120;
             curve = sin (t * pi) * (35 + emotionalIntensity s * 4);
             wave = sin (y * 0.02 + globalTime s) * 3;
             distortion = vmult baseDistortion (0.4 * (1 - t));
             x = startX + side * (curve + wave) + fst distortion;
             y = y + snd distortion
         in (if i = 0 \<or> i = 7 then [CurveVertex x y] else []) @ [CurveVertex x y])
        @ arm_points baseDistortion s side startX startY (i + 1)
      else [])"
  by pat_completeness auto
termination
  by (relation "measure (\<lambda>(b, s, side, startX, startY, i). 8 - i)") auto

declare arm_points.simps [simp del]

function arms_loop :: "vec \<Rightarrow> state \<Rightarrow> int \<Rightarrow> cmd list" where
  "arms_loop baseDistortion s side =
     (if side \<le> 1 then
        (let startX = real_of_int side * 32;
             startY = - 90
         in [Push] @ drawArmConnection (real_of_int side) startX startY
            @ [Stroke ARMS_MAIN, StrokeWeight 9, NoFill, BeginShape]
            @ arm_points baseDistortion s (real_of_int side) startX startY 0
            @ [EndShape False, Pop])
        @ arms_loop baseDistortion s (side + 2)
      else [])"
  by pat_completeness auto
termination
  by (relation "measure (\<lambda>(b, s, side). nat (3 - side))") auto

declare arms_loop.simps [simp del]

definition drawArms :: "vec \<Rightarrow> state \<Rightarrow> cmd list" where
  "drawArms baseDistortion s = arms_loop baseDistortion s (- 1)"

subsection \<open>The head\<close>

function aura_loop :: "oscillator list \<Rightarrow> state \<Rightarrow> nat \<Rightarrow> cmd list" where
  "aura_loop df s i =
     (if i > 0 then
        (let alpha = map_p5 (real i) 3 0 0.04 0.12;
             size = map_p5 (real i) 3 0 110 85;
             auraDistortion = vmult (getComplexDistortion df 0 (- 130) (globalTime s + real i)) 0.5
         in [Fill (HEAD_GLOW @ [alpha]), NoStroke,
             Ellipse (fst auraDistortion) (snd auraDistortion)
               (size + sin (globalTime s * 1.5) * 3)
               (size * 1.2 + sin (globalTime s * 1.5) * 3)])
        @ aura_loop df s (i - 1)
      else [])"
  by pat_completeness auto
termination
  by (relation "measure (\<lambda>(df, s, i). i)") auto

declare aura_loop.simps [simp del]

definition drawHeadAura :: "oscillator list \<Rightarrow> state \<Rightarrow> cmd list" where
  "drawHeadAura df s = aura_loop df s 3"

definition skull_radius :: "real \<Rightarrow> real" where
  "skull_radius angle =
     (let r = 42
      in if angle < pi then
           (let r = r + sin (angle * 2) * 7;
                r = (if angle > pi / 4 \<and> angle < pi / 2 then r - 3 else r);
                r = (if angle > pi / 2 \<and> angle < 3 * pi / 4 then r - 3 else r)
            in r)
         else r + sin (angle * 1.5) * 5)"

function skull_loop :: "vec \<Rightarrow> real \<Rightarrow> cmd list" where
  "skull_loop baseDistortion angle =
     (if angle < TWO_PI then
        (let r = skull_radius angle;
             x = cos angle * r;
             y = sin angle * r * 1.35;
             distortion = vmult baseDistortion 0.4
         in Vertex (x + fst distortion) (y + snd distortion))
        # skull_loop baseDistortion (angle + 0.1)
      else [])"
  by pat_completeness auto
termination
proof (relation "measure (\<lambda>(b, angle). nat \<lceil>(TWO_PI - angle) * 10\<rceil>)")
  show "wf (measure (\<lambda>(b, angle). nat \<lceil>(TWO_PI - angle) * 10\<rceil>))"
    by simp
next
  fix b :: vec and angle :: real
  assume a: "angle < TWO_PI"
  have "\<lceil>(TWO_PI - (angle + 0.1)) * 10\<rceil> = \<lceil>(TWO_PI - angle) * 10\<rceil> - 1"
    by (simp add: algebra_simps) linarith
  moreover have "0 < \<lceil>(TWO_PI - angle) * 10\<rceil>"
    using a by simp
  ultimately show "((b, angle + 0.1), (b, angle))
      \<in> measure (\<lambda>(b, angle). nat \<lceil>(TWO_PI - angle) * 10\<rceil>)"
    by simp
qed

declare skull_loop.simps [simp del]

definition drawSkullShape :: "vec \<Rightarrow> cmd list" where
  "drawSkullShape baseDistortion =
     [Fill HEAD_MAIN, NoStroke, BeginShape] @ skull_loop baseDistortion 0 @ [EndShape True]"

function mouth_loop :: "vec \<Rightarrow> state \<Rightarrow> real \<Rightarrow> cmd list" where
  "mouth_loop baseDistortion s angle =
     (if angle < TWO_PI then
        (let r = 9 + sin (angle * 3 + globalTime s) * (1 + emotionalIntensity s * 0.5);
             x = cos angle * r;
             y = sin angle * r * 1.4 + 20;
             distortion = vmult baseDistortion 0.2
         in Vertex (x + fst distortion) (y + snd distortion))
        # mouth_loop baseDistortion s (angle + 0.1)
      else [])"
  by pat_completeness auto
termination
proof (relation "measure (\<lambda>(b, s, angle). nat \<lceil>(TWO_PI - angle) * 10\<rceil>)")
  show "wf (measure (\<lambda>(b, s, angle). nat \<lceil>(TWO_PI - angle) * 10\<rceil>))"
    by simp
next
  fix b :: vec and s :: state and angle :: real
  assume a: "angle < TWO_PI"
  have "\<lceil>(TWO_PI - (angle + 0.1)) * 10\<rceil> = \<lceil>(TWO_PI - angle) * 10\<rceil> - 1"
    by (simp add: algebra_simps) linarith
  moreover have "0 < \<lceil>(TWO_PI - angle) * 10\<rceil>"
    using a by simp
  ultimately show "((b, s, angle + 0.1), (b, s, angle))
      \<in> measure (\<lambda>(b, s, angle). nat \<lceil>(TWO_PI - angle) * 10\<rceil>)"
    by simp
qed

declare mouth_loop.simps [simp del]

definition drawMouth :: "vec \<Rightarrow> state \<Rightarrow> cmd list" where
  "drawMouth baseDistortion s =
     [Fill [0], BeginShape] @ mouth_loop baseDistortion s 0
     @ (let mouthDistortion = vmult baseDistortion 0.3
        in [EndShape True, Fill [0],
            Ellipse (fst mouthDistortion) (20 + snd mouthDistortion)
              (12 + emotionalIntensity s * 2) (20 + emotionalIntensity s * 3)])"

function eyes_loop :: "vec \<Rightarrow> state \<Rightarrow> int \<Rightarrow> cmd list" where
  "eyes_loop baseDistortion s side =
     (if side \<le> 1 then
        (let socketSize = 18 + emotionalIntensity s * 2;
             eyeDistortion = vmult baseDistortion 0.3;
             pupilOffset = createVector (sin (globalTime s) * emotionalIntensity s)
                                        (cos (globalTime s) * emotionalIntensity s)
         in [Push, Translate (real_of_int side * 15) (- 10),
             Fill [0, 0, 0, 0.35], Ellipse 0 0 socketSize (socketSize * 1.15),
             Fill [0], Ellipse (fst eyeDistortion) (snd eyeDistortion) 13 17,
             Fill [0], Ellipse (fst pupilOffset) (snd pupilOffset) 5 5,
             Pop])
        @ eyes_loop baseDistortion s (side + 2)
      else [])"
  by pat_completeness auto
termination
  by (relation "measure (\<lambda>(b, s, side). nat (3 - side))") auto

declare eyes_loop.simps [simp del]

definition drawFacialFeatures :: "vec \<Rightarrow> state \<Rightarrow> cmd list" where
  "drawFacialFeatures baseDistortion s =
     eyes_loop baseDistortion s (- 1) @ drawMouth baseDistortion s"

subsection \<open>Function declarations with the same name\<close>

text \<open>
  The script declares \<open>addAtmosphericEffects\<close> and \<open>drawHead\<close> twice each.
  Function declarations are bound before any statement runs, in source order, so a name
  is bound to its last declaration.  The four declarations, by their line:
\<close>

definition declared :: "(string \<times> nat) list" where
  "declared = [(''addAtmosphericEffects'', 291), (''drawHead'', 296),
               (''drawHead'', 304), (''addAtmosphericEffects'', 431)]"

definition bound_decl :: "string \<Rightarrow> nat option" where
  "bound_decl f = map_of (rev declared) f"

text \<open>The declaration of \<open>drawHead\<close> at line 296 has an empty body.\<close>

definition drawHead_stub :: "oscillator list \<Rightarrow> vec \<Rightarrow> state \<Rightarrow> cmd list" where
  "drawHead_stub df baseDistortion s = []"

text \<open>The declaration at line 304.\<close>

definition drawHead :: "oscillator list \<Rightarrow> vec \<Rightarrow> state \<Rightarrow> cmd list" where
  "drawHead df baseDistortion s =
     [Push, Translate 0 (- 130)]
     @ drawHeadAura df s
     @ drawSkullShape baseDistortion
     @ drawFacialFeatures baseDistortion s
     @ [Pop]"

text \<open>What a call \<open>drawHead(baseDistortion)\<close> runs.\<close>

definition call_drawHead :: "oscillator list \<Rightarrow> vec \<Rightarrow> state \<Rightarrow> cmd list" where
  "call_drawHead df baseDistortion s =
     (if bound_decl ''drawHead'' = Some 296 then drawHead_stub df baseDistortion s
      else drawHead df baseDistortion s)"

definition drawFigure :: "oscillator list \<Rightarrow> bool \<Rightarrow> state \<Rightarrow> cmd list" where
  "drawFigure df isShadow s =
     (let baseDistortion = getComplexDistortion df 0 0 (globalTime s)
      in drawBody isShadow baseDistortion s
         @ (if \<not> isShadow
            then drawArms baseDistortion s @ call_drawHead df baseDistortion s
            else []))"

definition drawShadowLayer :: "oscillator list \<Rightarrow> state \<Rightarrow> cmd list" where
  "drawShadowLayer df s =
     (let shadowOffset = createVector (2 + sin (globalTime s * 0.7) * 1.5)
                                      (2 + cos (globalTime s * 0.7) * 1.5)
      in [Push, Translate (fst shadowOffset) (snd shadowOffset)]
         @ drawFigure df True s
         @ [Pop])"

definition drawMainFigure :: "oscillator list \<Rightarrow> state \<Rightarrow> cmd list" where
  "drawMainFigure df s = drawFigure df False s"

subsection \<open>Atmospheric effects\<close>

definition drawVignette :: "state \<Rightarrow> cmd list" where
  "drawVignette s =
     (let innerRadius = 150 + sin (globalTime s) * 5;
          outerRadius = 400 + sin (globalTime s * 0.5) * 10;
          maxOpacity = 0.08 + emotionalIntensity s * 0.04
      in [CreateRadialGradient 0 0 innerRadius 0 0 outerRadius,
          AddColorStopBlack 0 0,
          AddColorStopBlack 0.7 (maxOpacity * 0.3),
          AddColorStopBlack 1 maxOpacity,
          SetFillStyleGradient,
          FillRect (- width s / 2) (- height s / 2) (width s) (height s)])"

definition addEmotionalGlow :: "state \<Rightarrow> cmd list" where
  "addEmotionalGlow s =
     [Push, BlendModeOverlay, NoStroke,
      Fill [200 + sin (globalTime s) * 8,
            200 + sin (globalTime s * 1.1) * 8,
            190 + sin (globalTime s * 1.2) * 8,
            emotionalIntensity s * 0.04],
      Rect (- width s / 2) (- height s / 2) (width s) (height s),
      Pop]"

text \<open>
  \<open>pixels\<close> is a \<open>Uint8ClampedArray\<close>.  A read at a key that is not an index of
  the array is \<open>undefined\<close>, a write there is dropped, and a stored number is clamped to
  0..255 and rounded to the nearest integer, ties to even.
\<close>

definition px_index :: "nat list \<Rightarrow> real \<Rightarrow> bool" where
  "px_index ps i = (0 \<le> i \<and> real_of_int \<lfloor>i\<rfloor> = i \<and> nat \<lfloor>i\<rfloor> < length ps)"

definition px_read :: "nat list \<Rightarrow> real \<Rightarrow> nat option" where
  "px_read ps i = (if px_index ps i then Some (ps ! nat \<lfloor>i\<rfloor>) else None)"

definition u8clamp :: "real \<Rightarrow> nat" where
  "u8clamp v = (if v \<le> 0 then 0 else if v \<ge> 255 then 255 else nat (round_half_even v))"

definition px_write :: "nat list \<Rightarrow> real \<Rightarrow> real \<Rightarrow> nat list" where
  "px_write ps i v = (if px_index ps i then ps[nat \<lfloor>i\<rfloor> := u8clamp v] else ps)"

text \<open>
  The body of the inner loop of \<open>addNoiseToFigure\<close>, on the array and the number of
  draws of \<open>random\<close> taken so far.  A channel that is \<open>undefined\<close> makes the
  brightness NaN, and the comparison with 180 false.  The three channels are distinct
  elements, so the values the three assignments read are the ones the brightness read.
\<close>

definition noise_px :: "host \<Rightarrow> real \<Rightarrow> real \<Rightarrow> nat list \<times> nat \<Rightarrow> nat list \<times> nat" where
  "noise_px h intensity index p =
     (let ps = fst p; k = snd p
      in case (px_read ps index, px_read ps (index + 1), px_read ps (index + 2)) of
           (Some r, Some g, Some b) \<Rightarrow>
             (let brightness = (real r + real g + real b) / 3
              in if brightness < 180 then
                   (let noiseAmount = random2 (rnd h k) (- 6) 6 * intensity;
                        ps = px_write ps index (constrain (real r + noiseAmount) 0 255);
                        ps = px_write ps (index + 1) (constrain (real g + noiseAmount) 0 255);
                        ps = px_write ps (index + 2) (constrain (real b + noiseAmount) 0 255)
                    in (ps, k + 1))
                 else p)
         | _ \<Rightarrow> p)"

function noise_cols :: "host \<Rightarrow> state \<Rightarrow> nat \<Rightarrow> nat \<Rightarrow> nat list \<times> nat \<Rightarrow> nat list \<times> nat" where
  "noise_cols h s y x p =
     (if real x < width s
      then noise_cols h s y (x + 1)
             (noise_px h (emotionalIntensity s) ((real x + real y * width s) * 4) p)
      else p)"
  by pat_completeness auto
termination
  by (relation "measure (\<lambda>(h, s, y, x, p). nat \<lceil>width s\<rceil> - x)") (auto, linarith)

declare noise_cols.simps [simp del]

function noise_rows :: "host \<Rightarrow> state \<Rightarrow> nat \<Rightarrow> nat list \<times> nat \<Rightarrow> nat list \<times> nat" where
  "noise_rows h s y p =
     (if real y < height s
      then noise_rows h s (y + 1) (noise_cols h s y 0 p)
      else p)"
  by pat_completeness auto
termination
  by (relation "measure (\<lambda>(h, s, y, p). nat \<lceil>height s\<rceil> - y)") (auto, linarith)

declare noise_rows.simps [simp del]

text \<open>
  \<open>loadPixels()\<close> fills \<open>pixels\<close> with what the canvas holds after the calls made so
  far; \<open>updatePixels()\<close> writes the array back.
\<close>

definition addNoiseToFigure :: "host \<Rightarrow> state \<Rightarrow> error option \<times> state" where
  "addNoiseToFigure h s =
     and_then (emit h [LoadPixels] s)
       (\<lambda>s. let s = s\<lparr>pixels := raster h (canvas s)\<rparr>;
                 p = noise_rows h s 0 (pixels s, drawn s);
                 s = s\<lparr>pixels := fst p, drawn := snd p\<rparr>
             in emit h [UpdatePixels (pixels s)] s)"

text \<open>The declaration of \<open>addAtmosphericEffects\<close> at line 291 has an empty body.\<close>

definition addAtmosphericEffects_stub :: "host \<Rightarrow> state \<Rightarrow> error option \<times> state" where
  "addAtmosphericEffects_stub h s = (None, s)"

text \<open>The declaration at line 431.\<close>

definition addAtmosphericEffects :: "host \<Rightarrow> state \<Rightarrow> error option \<times> state" where
  "addAtmosphericEffects h s =
     and_then (and_then (emit h (drawVignette s) s) (addNoiseToFigure h))
       (\<lambda>s. emit h (addEmotionalGlow s) s)"

definition call_addAtmosphericEffects :: "host \<Rightarrow> state \<Rightarrow> error option \<times> state" where
  "call_addAtmosphericEffects h s =
     (if bound_decl ''addAtmosphericEffects'' = Some 291 then addAtmosphericEffects_stub h s
      else addAtmosphericEffects h s)"

subsection \<open>The callbacks draw, mouseMoved and windowResized\<close>

text \<open>
  The \<open>try\<close> block of \<open>draw\<close>; \<open>frameCount\<close> is the frame number p5 has set.  An
  array is truthy even when empty, so the check is for a binding that holds no object.
\<close>

definition draw_try :: "host \<Rightarrow> nat \<Rightarrow> state \<Rightarrow> error option \<times> state" where
  "draw_try h frameCount s =
     (case (flowfield s, distortionField s) of
        (Some ff, Some df) \<Rightarrow>
          (let s = s\<lparr>globalTime := real frameCount * 0.008\<rparr>;
               s = s\<lparr>emotionalIntensity := map_p5 (sin (globalTime s * 0.3)) (- 1) 1 0.5 1\<rparr>
           in and_then
                (and_then
                  (and_then
                    (emit h [Background (BACKGROUND ! 0 + sin (globalTime s) * 2)
                                        (BACKGROUND ! 1 + sin (globalTime s * 1.1) * 2)
                                        (BACKGROUND ! 2 + sin (globalTime s * 1.2) * 2)] s)
                    (\<lambda>s. let p = update h ff (vectors s) (globalTime s)
                          in (None, s\<lparr>flowfield := Some (fst p), vectors := snd p\<rparr>)))
                  (\<lambda>s. emit h ([Translate (width s / 2) (height s / 2)]
                                 @ drawShadowLayer df s @ drawMainFigure df s) s))
                (call_addAtmosphericEffects h))
      | _ \<Rightarrow> (None, s\<lparr>console := console s @ [NotInitialized], looping := False\<rparr>))"

text \<open>\<open>draw\<close>: the \<open>try\<close> block and its \<open>catch\<close>, which logs and calls \<open>noLoop()\<close>.\<close>

definition draw :: "host \<Rightarrow> nat \<Rightarrow> state \<Rightarrow> state" where
  "draw h frameCount s =
     (case draw_try h frameCount s of
        (Some e, s') \<Rightarrow> s'\<lparr>console := console s' @ [DrawCycleFailed e], looping := False\<rparr>
      | (None, s') \<Rightarrow> s')"

definition mouseMoved :: "real \<Rightarrow> real \<Rightarrow> real \<Rightarrow> real \<Rightarrow> state \<Rightarrow> state" where
  "mouseMoved mouseX mouseY pmouseX pmouseY s =
     (let speed' = dist_p5 mouseX mouseY pmouseX pmouseY
      in s\<lparr>emotionalIntensity :=
             constrain (emotionalIntensity s + speed' * 0.0008) 0.5 1\<rparr>)"

text \<open>
  \<open>resizeCanvas(w, h)\<close> sets \<open>width\<close> and \<open>height\<close> to its arguments and, called
  without its third argument, redraws: p5 advances \<open>frameCount\<close> and calls \<open>draw\<close>
  before \<open>resizeCanvas\<close> returns, whether the loop is on or not.
\<close>

definition resizeCanvas :: "host \<Rightarrow> nat \<Rightarrow> real \<Rightarrow> real \<Rightarrow> state \<Rightarrow> state" where
  "resizeCanvas h frameCount w h' s =
     draw h frameCount (s\<lparr>width := w, height := h', canvas := canvas s @ [ResizeCanvas w h']\<rparr>)"

definition windowResized :: "host \<Rightarrow> nat \<Rightarrow> real \<Rightarrow> real \<Rightarrow> state \<Rightarrow> state" where
  "windowResized h frameCount windowWidth windowHeight s =
     resizeCanvas h frameCount (min (windowWidth * 0.8) 600) (min (windowHeight * 0.8) 800) s"

subsection \<open>Runs of the sketch\<close>

text \<open>
  After the script is loaded and \<open>setup\<close> has run, p5 calls the three callbacks in some
  order: \<open>draw\<close> with the frame number, \<open>mouseMoved\<close> with the pointer's position and
  its previous one, \<open>windowResized\<close> with the window's size (and the frame number of
  the frame that \<open>resizeCanvas\<close> draws).
\<close>

datatype event =
    Draw nat
  | MouseMoved real real real real
  | WindowResized real real nat

fun step :: "host \<Rightarrow> event \<Rightarrow> state \<Rightarrow> state" where
  "step h (Draw frameCount) s = draw h frameCount s"
| "step h (MouseMoved mouseX mouseY pmouseX pmouseY) s = mouseMoved mouseX mouseY pmouseX pmouseY s"
| "step h (WindowResized windowWidth windowHeight frameCount) s =
     windowResized h frameCount windowWidth windowHeight s"

definition run :: "host \<Rightarrow> event list \<Rightarrow> state \<Rightarrow> state" where
  "run h evs s = fold (step h) evs (setup_sketch h (load s))"

text \<open>
  Whether a run has called \<open>draw\<close> or \<open>mouseMoved\<close>: each of the three callbacks
  does, \<open>windowResized\<close> through \<open>resizeCanvas\<close>.
\<close>

fun sets_intensity :: "event \<Rightarrow> bool" where
  "sets_intensity (Draw frameCount) = True"
| "sets_intensity (MouseMoved mouseX mouseY pmouseX pmouseY) = True"
| "sets_intensity (WindowResized windowWidth windowHeight frameCount) = True"

subsection \<open>Predicates of the statements and proofs\<close>

text \<open>What the steps of a frame that follow the two assignments leave as it is.\<close>

definition stage_keeps :: "state \<Rightarrow> state \<Rightarrow> bool" where
  "stage_keeps s s' =
     (distortionField s' = distortionField s \<and> width s' = width s \<and> height s' = height s
      \<and> looping s' = looping s \<and> console s' = console s
      \<and> globalTime s' = globalTime s \<and> emotionalIntensity s' = emotionalIntensity s
      \<and> (flowfield s' = None \<longrightarrow> flowfield s = None))"

text \<open>Both bindings that \<open>draw\<close> checks hold an object.\<close>

definition ready :: "state \<Rightarrow> bool" where
  "ready s = (flowfield s \<noteq> None \<and> distortionField s \<noteq> None)"

text \<open>The ranges \<open>setup\<close> draws the parameters of an oscillator from.\<close>

definition osc_ok :: "oscillator \<Rightarrow> bool" where
  "osc_ok d = (0.002 \<le> frequency d \<and> frequency d < 0.003 \<and>
          1.5 \<le> amplitude d \<and> amplitude d < 3 \<and>
          0 \<le> phase d \<and> phase d < TWO_PI \<and>
          0.0005 \<le> speed d \<and> speed d < 0.0008)"

text \<open>
  A host that never throws, with constant \<open>random\<close> and \<open>noise\<close> and an empty
  canvas, and the page before the script is loaded (p5's default canvas is 100 by 100).
\<close>

definition quiet_host :: host where
  "quiet_host = \<lparr>throws = (\<lambda>c. False), rnd = (\<lambda>n. 1 / 2), noise = (\<lambda>x y t. 1 / 2),
                  raster = (\<lambda>cs. [])\<rparr>"

definition blank :: state where
  "blank = \<lparr>flowfield = None, globalTime = 0, emotionalIntensity = 0, distortionField = None,
             width = 100, height = 100, pixels = [], vectors = [], looping = True,
             console = [], canvas = [], drawn = 0\<rparr>"

text \<open>The two calls that move the canvas into \<open>pixels\<close> and back.\<close>

fun pixel_call :: "cmd \<Rightarrow> bool" where
  "pixel_call LoadPixels = True"
| "pixel_call (UpdatePixels ps) = True"
| "pixel_call c = False"

text \<open>A host whose backend throws in \<open>loadPixels()\<close> and nowhere else.\<close>

definition load_fails :: host where
  "load_fails = quiet_host\<lparr>throws := (\<lambda>c. c = LoadPixels)\<rparr>"

text \<open>
  A step that ends with an exception ends with one the backend threw, and a step adds to
  the canvas only calls the backend accepted.
\<close>

definition calls_sound :: "host \<Rightarrow> state \<Rightarrow> error option \<times> state \<Rightarrow> bool" where
  "calls_sound h s r =
     ((case fst r of None \<Rightarrow> True | Some e \<Rightarrow> (case e of Thrown c \<Rightarrow> throws h c | _ \<Rightarrow> False)) \<and>
      (\<exists>cs. canvas (snd r) = canvas s @ cs \<and> list_all (\<lambda>c. \<not> throws h c) cs))"

text \<open>Two states with the same time, intensity and canvas size.\<close>

definition same_inputs :: "state \<Rightarrow> state \<Rightarrow> bool" where
  "same_inputs s s' =
     (globalTime s = globalTime s' \<and> emotionalIntensity s = emotionalIntensity s' \<and>
      width s = width s' \<and> height s = height s')"

text \<open>
  Two states that are equal but for the flow field and the vector objects, two results of
  a step that are so, and two hosts that are equal but for \<open>noise\<close>.
\<close>

definition flow_apart :: "state \<Rightarrow> state \<Rightarrow> bool" where
  "flow_apart s s' = (\<exists>f v. s' = s\<lparr>flowfield := f, vectors := v\<rparr>)"

definition flow_apart_res :: "error option \<times> state \<Rightarrow> error option \<times> state \<Rightarrow> bool" where
  "flow_apart_res r r' = (fst r = fst r' \<and> flow_apart (snd r) (snd r'))"

definition same_but_noise :: "host \<Rightarrow> host \<Rightarrow> bool" where
  "same_but_noise h h' = (throws h = throws h' \<and> rnd h = rnd h' \<and> raster h = raster h')"

text \<open>
  A host whose first draw of \<open>random\<close> is 0 and whose later draws are 0.75, with a canvas
  that always holds one black pixel; and a state with a canvas of one pixel.
\<close>

definition dice :: host where
  "dice = \<lparr>throws = (\<lambda>c. False), rnd = (\<lambda>n. if n = 0 then 0 else 3 / 4),
            noise = (\<lambda>x y t. 1 / 2), raster = (\<lambda>cs. [0, 0, 0, 255])\<rparr>"

definition one_pixel :: state where
  "one_pixel = blank\<lparr>width := 1, height := 1, emotionalIntensity := 1\<rparr>"

text \<open>The vector \<open>update\<close> stores in a cell.\<close>

definition cell_vec :: "host \<Rightarrow> FlowField \<Rightarrow> real \<Rightarrow> nat \<Rightarrow> real \<Rightarrow> nat \<Rightarrow> real \<Rightarrow> vec" where
  "cell_vec h ff time x xoff y yoff =
     vmult (fromAngle (cell_angle h time x xoff y yoff)) (particleSpeed ff)"

text \<open>
  A flow field as the constructor makes it and \<open>update\<close> keeps it: one element for
  each cell of the grid, and the speed 0.15.
\<close>

definition ff_shape :: "FlowField \<Rightarrow> bool" where
  "ff_shape ff =
     (0 \<le> cols ff \<and> 0 \<le> rows ff \<and> length (field ff) = nat (cols ff) * nat (rows ff) \<and>
      particleSpeed ff = 0.15)"

text \<open>The flow field and the vector objects are as they were.\<close>

definition flow_kept :: "state \<Rightarrow> state \<Rightarrow> bool" where
  "flow_kept s s' = (flowfield s' = flowfield s \<and> vectors s' = vectors s)"

text \<open>A flow field of two by one cells, and a state that holds it.\<close>

definition two_cells :: FlowField where
  "two_cells = \<lparr>resolution = 20, cols = 2, rows = 1, field = [None, None],
                 particleSpeed = 0.15\<rparr>"

definition small_sketch :: state where
  "small_sketch = blank\<lparr>flowfield := Some two_cells, distortionField := Some []\<rparr>"

text \<open>Every reference in the field is to a vector object that exists.\<close>

definition refs_ok :: "FlowField \<Rightarrow> vstore \<Rightarrow> bool" where
  "refs_ok ff hp = list_all (\<lambda>r. case r of None \<Rightarrow> True | Some a \<Rightarrow> a < length hp) (field ff)"

text \<open>
  The brightness \<open>addNoiseToFigure\<close> computes for the pixel whose first channel is at
  index \<open>i\<close>, and the three statements about such a pixel in the array before and after
  the pass: its three colour channels are the old ones plus one common amount
  \<open>random(-6, 6) * emotionalIntensity\<close>, constrained to 0..255 and stored; its
  colour channels are as they were; its alpha channel is as it was.
\<close>

definition brightness :: "nat list \<Rightarrow> nat \<Rightarrow> real" where
  "brightness ps i = (real (ps ! i) + real (ps ! (i + 1)) + real (ps ! (i + 2))) / 3"

definition noised :: "host \<Rightarrow> real \<Rightarrow> nat list \<Rightarrow> nat list \<Rightarrow> nat \<Rightarrow> bool" where
  "noised h intensity ps ps' i =
     (\<exists>j. ps' ! i
            = u8clamp (constrain (real (ps ! i) + random2 (rnd h j) (- 6) 6 * intensity) 0 255) \<and>
          ps' ! (i + 1)
            = u8clamp (constrain (real (ps ! (i + 1)) + random2 (rnd h j) (- 6) 6 * intensity) 0 255) \<and>
          ps' ! (i + 2)
            = u8clamp (constrain (real (ps ! (i + 2)) + random2 (rnd h j) (- 6) 6 * intensity) 0 255))"

definition colour_kept :: "nat list \<Rightarrow> nat list \<Rightarrow> nat \<Rightarrow> bool" where
  "colour_kept ps ps' i =
     ((i < length ps \<longrightarrow> ps' ! i = ps ! i) \<and>
      (i + 1 < length ps \<longrightarrow> ps' ! (i + 1) = ps ! (i + 1)) \<and>
      (i + 2 < length ps \<longrightarrow> ps' ! (i + 2) = ps ! (i + 2)))"

definition alpha_kept :: "nat list \<Rightarrow> nat list \<Rightarrow> nat \<Rightarrow> bool" where
  "alpha_kept ps ps' i = (i + 3 < length ps \<longrightarrow> ps' ! (i + 3) = ps ! (i + 3))"

text \<open>What the pass has done to pixel number \<open>q\<close>.\<close>

definition pixel_post :: "host \<Rightarrow> real \<Rightarrow> nat list \<Rightarrow> nat list \<Rightarrow> nat \<Rightarrow> bool" where
  "pixel_post h intensity ps ps' q =
     ((if 4 * q + 2 < length ps \<and> brightness ps (4 * q) < 180
       then noised h intensity ps ps' (4 * q)
       else colour_kept ps ps' (4 * q)) \<and>
      alpha_kept ps ps' (4 * q))"

text \<open>
  The result \<open>p'\<close> of the pass over the pixels \<open>lo .. hi - 1\<close> of the array \<open>ps\<close>.
\<close>

definition swept ::
  "host \<Rightarrow> real \<Rightarrow> nat list \<Rightarrow> nat \<Rightarrow> nat \<Rightarrow> nat list \<times> nat \<Rightarrow> bool" where
  "swept h intensity ps lo hi p' =
     (length (fst p') = length ps \<and>
      (\<forall>i < length ps. i < 4 * lo \<or> 4 * hi \<le> i \<longrightarrow> fst p' ! i = ps ! i) \<and>
      (\<forall>q. lo \<le> q \<and> q < hi \<longrightarrow> pixel_post h intensity ps (fst p') q))"

text \<open>
  A host that throws nothing, whose draws of \<open>random\<close> are all 0.75 and whose canvas is
  black: the array \<open>loadPixels\<close> fills is that of 400 by 800 pixels, all of them 0.
\<close>

definition night :: host where
  "night = \<lparr>throws = (\<lambda>c. False), rnd = (\<lambda>n. 3 / 4), noise = (\<lambda>x y t. 1 / 2),
             raster = (\<lambda>cs. replicate 1280000 0)\<rparr>"

text \<open>The element \<open>j\<close> of the array is none of the three that the loop body writes at \<open>index\<close>.\<close>

definition apart :: "nat \<Rightarrow> real \<Rightarrow> bool" where
  "apart j index = (real j \<noteq> index \<and> real j \<noteq> index + 1 \<and> real j \<noteq> index + 2)"

text \<open>
  The sketch on that host after \<open>setup\<close> and one resize of the window to 501 by 1000:
  \<open>resizeCanvas(400.8, 800)\<close>, and the frame it draws.
\<close>

definition resized :: state where
  "resized = run night [WindowResized 501 1000 1] blank"

section \<open>Properties\<close>

subsection \<open>Backend calls and the steps of a frame\<close>


lemma emit_snd:
  "snd (emit h cs s) = s\<lparr>canvas := canvas s @ takeWhile (\<lambda>c. \<not> throws h c) cs\<rparr>"
  by (induction cs arbitrary: s) simp_all

lemma emit_fst:
  "fst (emit h cs s) = map_option Thrown (find (throws h) cs)"
  by (induction cs arbitrary: s) simp_all

lemma bound_decl_drawHead: "bound_decl ''drawHead'' = Some 304"
  by (simp add: bound_decl_def declared_def)

lemma bound_decl_atmo: "bound_decl ''addAtmosphericEffects'' = Some 431"
  by (simp add: bound_decl_def declared_def)

lemma and_then_None [simp]: "and_then (None, s) f = f s"
  by (simp add: and_then_def)

lemma and_then_Some [simp]: "and_then (Some e, s) f = (Some e, s)"
  by (simp add: and_then_def)

lemma and_then_cases:
  "and_then r f = (if fst r = None then f (snd r) else r)"
  by (cases r; cases "fst r") (auto simp: and_then_def)

lemma keeps_refl: "stage_keeps s s"
  by (simp add: stage_keeps_def)

lemma keeps_trans: "stage_keeps s s1 \<Longrightarrow> stage_keeps s1 s2 \<Longrightarrow> stage_keeps s s2"
  by (simp add: stage_keeps_def)

lemma keeps_emit: "stage_keeps s (snd (emit h cs s))"
  by (simp add: emit_snd stage_keeps_def)

lemma keeps_and_then:
  "stage_keeps s (snd r) \<Longrightarrow> (\<And>s1. stage_keeps s1 (snd (f s1))) \<Longrightarrow>
   stage_keeps s (snd (and_then r f))"
  by (auto simp: and_then_cases intro: keeps_trans)

lemma keeps_noise: "stage_keeps s (snd (addNoiseToFigure h s))"
  unfolding addNoiseToFigure_def
proof (rule keeps_and_then)
  show "stage_keeps s (snd (emit h [LoadPixels] s))" by (rule keeps_emit)
next
  fix s1
  show "stage_keeps s1 (snd (let s = s1\<lparr>pixels := raster h (canvas s1)\<rparr>;
                 p = noise_rows h s 0 (pixels s, drawn s);
                 s = s\<lparr>pixels := fst p, drawn := snd p\<rparr>
             in emit h [UpdatePixels (pixels s)] s))"
    by (simp add: Let_def emit_snd stage_keeps_def)
qed

lemma keeps_atmo: "stage_keeps s (snd (call_addAtmosphericEffects h s))"
  unfolding call_addAtmosphericEffects_def addAtmosphericEffects_def
  by (simp add: bound_decl_atmo keeps_and_then keeps_emit keeps_noise)

lemma draw_try_keeps:
  assumes "flowfield s = Some ff" "distortionField s = Some df"
  shows "stage_keeps
           (s\<lparr>globalTime := real fc * 0.008,
              emotionalIntensity := map_p5 (sin (real fc * 0.008 * 0.3)) (- 1) 1 0.5 1\<rparr>)
           (snd (draw_try h fc s))"
  unfolding draw_try_def using assms
  by (simp del: emit.simps add: Let_def)
     (intro keeps_and_then keeps_emit keeps_atmo; simp add: stage_keeps_def)

lemma draw_try_uninit:
  "flowfield s = None \<or> distortionField s = None \<Longrightarrow>
   draw_try h fc s = (None, s\<lparr>console := console s @ [NotInitialized], looping := False\<rparr>)"
  by (auto simp: draw_try_def split: option.splits)


lemma draw_keeps:
  "width (draw h fc s) = width s"
  "height (draw h fc s) = height s"
  "distortionField (draw h fc s) = distortionField s"
proof -
  have "width (draw h fc s) = width s \<and> height (draw h fc s) = height s \<and>
        distortionField (draw h fc s) = distortionField s"
  proof (cases "flowfield s = None \<or> distortionField s = None")
    case True
    then show ?thesis by (simp add: draw_def draw_try_uninit)
  next
    case False
    then obtain ff df where "flowfield s = Some ff" "distortionField s = Some df" by auto
    from draw_try_keeps[OF this, of fc h] show ?thesis
      by (cases "draw_try h fc s"; cases "fst (draw_try h fc s)")
         (auto simp: draw_def stage_keeps_def)
  qed
  then show "width (draw h fc s) = width s" "height (draw h fc s) = height s"
    "distortionField (draw h fc s) = distortionField s" by simp_all
qed

lemma draw_ready:
  assumes "ready s"
  shows "ready (draw h fc s)"
proof -
  from assms obtain ff df where "flowfield s = Some ff" "distortionField s = Some df"
    by (auto simp: ready_def)
  from draw_try_keeps[OF this, of fc h] show ?thesis
    by (cases "draw_try h fc s"; cases "fst (draw_try h fc s)")
       (auto simp: draw_def stage_keeps_def ready_def \<open>flowfield s = Some ff\<close>
          \<open>distortionField s = Some df\<close>)
qed

lemma draw_intensity:
  assumes "ready s"
  shows "emotionalIntensity (draw h fc s) = map_p5 (sin (real fc * 0.008 * 0.3)) (- 1) 1 0.5 1"
proof -
  from assms obtain ff df where "flowfield s = Some ff" "distortionField s = Some df"
    by (auto simp: ready_def)
  from draw_try_keeps[OF this, of fc h] show ?thesis
    by (cases "draw_try h fc s"; cases "fst (draw_try h fc s)")
       (auto simp: draw_def stage_keeps_def)
qed

lemma map_p5_bounds:
  "- 1 \<le> n \<Longrightarrow> n \<le> 1 \<Longrightarrow>
   1 / 2 \<le> map_p5 n (- 1) 1 0.5 1 \<and> map_p5 n (- 1) 1 0.5 1 \<le> 1"
  unfolding map_p5_def by (auto simp: field_simps)

lemma map_p5_sin_bounds:
  "1 / 2 \<le> map_p5 (sin x) (- 1) 1 0.5 1 \<and> map_p5 (sin x) (- 1) 1 0.5 1 \<le> 1"
  by (rule map_p5_bounds) simp_all

lemma constrain_bounds: "lo \<le> hi \<Longrightarrow> lo \<le> constrain n lo hi \<and> constrain n lo hi \<le> hi"
  by (simp add: constrain_def)

lemma constrain_mono: "n \<le> hi \<Longrightarrow> 0 \<le> d \<Longrightarrow> n \<le> constrain (n + d) lo hi"
  by (simp add: constrain_def)

lemma dist_p5_nonneg: "0 \<le> dist_p5 a b c d"
  by (simp add: dist_p5_def)


lemma mouseMoved_keeps:
  "flowfield (mouseMoved a b c d s) = flowfield s"
  "distortionField (mouseMoved a b c d s) = distortionField s"
  "width (mouseMoved a b c d s) = width s"
  "height (mouseMoved a b c d s) = height s"
  by (simp_all add: mouseMoved_def Let_def)

lemma windowResized_draw:
  "windowResized h fc a b s =
     draw h fc (s\<lparr>width := min (a * 0.8) 600, height := min (b * 0.8) 800,
                  canvas := canvas s @ [ResizeCanvas (min (a * 0.8) 600) (min (b * 0.8) 800)]\<rparr>)"
  by (simp add: windowResized_def resizeCanvas_def)

lemma windowResized_keeps:
  "distortionField (windowResized h fc a b s) = distortionField s"
  "width (windowResized h fc a b s) = min (a * 0.8) 600"
  "height (windowResized h fc a b s) = min (b * 0.8) 800"
  by (simp_all add: windowResized_draw draw_keeps)

lemma windowResized_ready: "ready s \<Longrightarrow> ready (windowResized h fc a b s)"
  unfolding windowResized_draw by (rule draw_ready) (simp add: ready_def)

lemma windowResized_intensity:
  "ready s \<Longrightarrow>
   emotionalIntensity (windowResized h fc a b s) = map_p5 (sin (real fc * 0.008 * 0.3)) (- 1) 1 0.5 1"
  unfolding windowResized_draw by (rule draw_intensity) (simp add: ready_def)

lemma step_ready: "ready s \<Longrightarrow> ready (step h e s)"
  by (cases e) (simp_all add: draw_ready windowResized_ready, simp_all add: ready_def mouseMoved_keeps)

lemma step_distortionField: "distortionField (step h e s) = distortionField s"
  by (cases e) (simp_all add: draw_keeps mouseMoved_keeps windowResized_keeps)

lemma run_snoc: "run h (evs @ [e]) s = step h e (run h evs s)"
  by (simp add: run_def)

lemma random2_range:
  assumes "0 \<le> u" "u < 1" "lo < hi"
  shows "lo \<le> random2 u lo hi \<and> random2 u lo hi < hi"
proof -
  have "0 \<le> u * (hi - lo)" using assms by simp
  moreover have "u * (hi - lo) < 1 * (hi - lo)"
    using assms by (intro mult_strict_right_mono) simp_all
  ultimately show ?thesis by (simp add: random2_def)
qed

lemma random1_range:
  assumes "0 \<le> u" "u < 1" "0 < hi"
  shows "0 \<le> random1 u hi \<and> random1 u hi < hi"
proof -
  have "0 \<le> u * hi" using assms by simp
  moreover have "u * hi < 1 * hi"
    using assms by (intro mult_strict_right_mono) simp_all
  ultimately show ?thesis by (simp add: random1_def)
qed

lemma new_osc_ok:
  assumes "\<And>n. 0 \<le> rnd h n \<and> rnd h n < 1"
  shows "osc_ok \<lparr>frequency = random2 (rnd h k) 0.002 0.003,
                amplitude = random2 (rnd h (k + 1)) 1.5 3,
                phase = random1 (rnd h (k + 2)) TWO_PI,
                speed = random2 (rnd h (k + 3)) 0.0005 0.0008\<rparr>"
proof -
  have "0 < TWO_PI" by (simp add: TWO_PI_def)
  then show ?thesis
    using random2_range[of "rnd h k" "0.002" "0.003"]
      random2_range[of "rnd h (k + 1)" "1.5" 3]
      random1_range[of "rnd h (k + 2)" TWO_PI]
      random2_range[of "rnd h (k + 3)" "0.0005" "0.0008"] assms
    by (simp add: osc_ok_def)
qed

lemma initDistortion_props:
  "distortionField s = Some df \<Longrightarrow> i \<le> 8 \<Longrightarrow>
   fst (initDistortion h i s) = None \<and>
   flowfield (snd (initDistortion h i s)) = flowfield s \<and>
   width (snd (initDistortion h i s)) = width s \<and>
   height (snd (initDistortion h i s)) = height s \<and>
   emotionalIntensity (snd (initDistortion h i s)) = emotionalIntensity s \<and>
   looping (snd (initDistortion h i s)) = looping s \<and>
   console (snd (initDistortion h i s)) = console s \<and>
   (\<exists>df'. distortionField (snd (initDistortion h i s)) = Some (df @ df') \<and> length df' = 8 - i \<and>
      ((\<forall>n. 0 \<le> rnd h n \<and> rnd h n < 1) \<longrightarrow> (\<forall>d \<in> set df'. osc_ok d)))"
proof (induction h i s arbitrary: df rule: initDistortion.induct)
  case (1 h i s)
  show ?case
  proof (cases "i < 8")
    case False
    with "1.prems" show ?thesis
      by (subst (1 2 3 4 5 6 7 8) initDistortion.simps) simp
  next
    case True
    let ?d = "\<lparr>frequency = random2 (rnd h (drawn s)) 0.002 0.003,
                amplitude = random2 (rnd h (drawn s + 1)) 1.5 3,
                phase = random1 (rnd h (drawn s + 2)) TWO_PI,
                speed = random2 (rnd h (drawn s + 3)) 0.0005 0.0008\<rparr>"
    let ?s = "s\<lparr>distortionField := Some (df @ [?d]), drawn := drawn s + 4\<rparr>"
    have step: "initDistortion h i s = initDistortion h (i + 1) ?s"
      using True "1.prems" by (subst initDistortion.simps) simp
    have ih: "fst (initDistortion h (i + 1) ?s) = None \<and>
       flowfield (snd (initDistortion h (i + 1) ?s)) = flowfield ?s \<and>
       width (snd (initDistortion h (i + 1) ?s)) = width ?s \<and>
       height (snd (initDistortion h (i + 1) ?s)) = height ?s \<and>
       emotionalIntensity (snd (initDistortion h (i + 1) ?s)) = emotionalIntensity ?s \<and>
       looping (snd (initDistortion h (i + 1) ?s)) = looping ?s \<and>
       console (snd (initDistortion h (i + 1) ?s)) = console ?s \<and>
       (\<exists>df'. distortionField (snd (initDistortion h (i + 1) ?s)) = Some ((df @ [?d]) @ df') \<and>
          length df' = 8 - (i + 1) \<and>
          ((\<forall>n. 0 \<le> rnd h n \<and> rnd h n < 1) \<longrightarrow> (\<forall>d \<in> set df'. osc_ok d)))"
      using True "1.prems" by (intro "1.IH"[of df]) simp_all
    then obtain df' where df':
      "distortionField (snd (initDistortion h (i + 1) ?s)) = Some ((df @ [?d]) @ df')"
      "length df' = 8 - (i + 1)"
      "(\<forall>n. 0 \<le> rnd h n \<and> rnd h n < 1) \<longrightarrow> (\<forall>d \<in> set df'. osc_ok d)"
      by blast
    have dok: "(\<forall>n. 0 \<le> rnd h n \<and> rnd h n < 1) \<longrightarrow> osc_ok ?d"
      using new_osc_ok[of h "drawn s"] by blast
    have ex: "\<exists>df''. distortionField (snd (initDistortion h (i + 1) ?s)) = Some (df @ df'') \<and>
        length df'' = 8 - i \<and>
        ((\<forall>n. 0 \<le> rnd h n \<and> rnd h n < 1) \<longrightarrow> (\<forall>d \<in> set df''. osc_ok d))"
      using df' dok True by (intro exI[of _ "?d # df'"]) auto
    show ?thesis
      unfolding step using ih ex by simp
  qed
qed


lemma FlowField_new_600_800:
  "width s = 600 \<Longrightarrow> height s = 800 \<Longrightarrow>
   FlowField_new s 20 = Inr \<lparr>resolution = 20, cols = 30, rows = 40,
                             field = replicate 1200 None, particleSpeed = 0.15\<rparr>"
  by (simp add: FlowField_new_def Let_def)

lemma setup_props:
  "ready (setup_sketch h (load s)) \<and>
   width (setup_sketch h (load s)) = 600 \<and>
   height (setup_sketch h (load s)) = 800 \<and>
   emotionalIntensity (setup_sketch h (load s)) = 0 \<and>
   flowfield (setup_sketch h (load s))
     = Some \<lparr>resolution = 20, cols = 30, rows = 40,
              field = replicate 1200 None, particleSpeed = 0.15\<rparr> \<and>
   (\<exists>df. distortionField (setup_sketch h (load s)) = Some df \<and> length df = 8 \<and>
      ((\<forall>n. 0 \<le> rnd h n \<and> rnd h n < 1) \<longrightarrow> (\<forall>d \<in> set df. osc_ok d)))"
proof -
  let ?s0 = "(load s)\<lparr>width := 600, height := 800,
                 canvas := canvas (load s) @ [CreateCanvas 600 800, PixelDensity 1,
                                       ColorModeRGB 255 255 255 1]\<rparr>"
  let ?ff = "\<lparr>resolution = 20, cols = 30, rows = 40,
                             field = replicate 1200 None, particleSpeed = 0.15\<rparr>"
  let ?s1 = "?s0\<lparr>flowfield := Some ?ff\<rparr>"
  let ?r = "initDistortion h 0 ?s1"
  have d: "distortionField ?s1 = Some []" by (simp add: load_def)
  from initDistortion_props[OF d, of 0 h]
  obtain df where r: "fst ?r = None" "flowfield (snd ?r) = Some ?ff" "width (snd ?r) = 600"
    "height (snd ?r) = 800" "emotionalIntensity (snd ?r) = 0"
    "distortionField (snd ?r) = Some df" "length df = 8"
    "(\<forall>n. 0 \<le> rnd h n \<and> rnd h n < 1) \<longrightarrow> (\<forall>d \<in> set df. osc_ok d)"
    by (auto simp: load_def)
  have t: "setup_try h ?s0 = emit h [FrameRate 30, Smooth, CanvasStylePixelated] (snd ?r)"
    using r(1) by (simp add: setup_try_def FlowField_new_600_800 and_then_cases del: emit.simps)
  let ?e = "emit h [FrameRate 30, Smooth, CanvasStylePixelated] (snd ?r)"
  have e: "flowfield (snd ?e) = Some ?ff" "width (snd ?e) = 600" "height (snd ?e) = 800"
    "emotionalIntensity (snd ?e) = 0" "distortionField (snd ?e) = Some df"
    using r by (simp_all add: emit_snd)
  have s: "setup_sketch h (load s) =
     (case ?e of (Some e, s1) \<Rightarrow> s1\<lparr>console := console s1 @ [SetupFailed e], looping := False\<rparr>
         | (None, s1) \<Rightarrow> s1)"
    unfolding setup_sketch_def Let_def t ..
  show ?thesis
    unfolding s using e r(7,8)
    by (cases ?e; cases "fst ?e") (auto simp: ready_def)
qed

lemma run_ready: "ready (run h evs s)"
proof (induction evs rule: rev_induct)
  case Nil
  then show ?case using setup_props[of h s] by (simp add: run_def)
next
  case (snoc e evs)
  then show ?case by (simp add: run_snoc step_ready)
qed

lemma run_distortionField: "distortionField (run h evs s) = distortionField (run h [] s)"
  by (induction evs rule: rev_induct) (simp_all add: run_snoc step_distortionField)

lemma run_dims: "width (run h evs s) \<le> 600 \<and> height (run h evs s) \<le> 800"
proof (induction evs rule: rev_induct)
  case Nil
  then show ?case using setup_props[of h s] by (simp add: run_def)
next
  case (snoc e evs)
  then show ?case
    by (cases e) (simp_all add: run_snoc draw_keeps mouseMoved_keeps windowResized_keeps)
qed

lemma run_intensity_le: "emotionalIntensity (run h evs s) \<le> 1"
proof (induction evs rule: rev_induct)
  case Nil
  then show ?case using setup_props[of h s] by (simp add: run_def)
next
  case (snoc e evs)
  show ?case
  proof (cases e)
    case (Draw fc)
    then show ?thesis
      using draw_intensity[OF run_ready, of h fc h evs s] map_p5_sin_bounds[of "real fc * 0.008 * 0.3"]
      by (simp add: run_snoc)
  next
    case (MouseMoved a b c d)
    then show ?thesis
      using constrain_bounds[of "0.5" 1]
      by (simp add: run_snoc mouseMoved_def Let_def)
  next
    case (WindowResized a b fc)
    then show ?thesis
      using windowResized_intensity[OF run_ready, of h fc a b h evs s]
        map_p5_sin_bounds[of "real fc * 0.008 * 0.3"]
      by (simp add: run_snoc)
  qed
qed

lemma run_intensity_ge:
  "list_ex sets_intensity evs \<Longrightarrow> 1 / 2 \<le> emotionalIntensity (run h evs s)"
proof (induction evs rule: rev_induct)
  case Nil
  then show ?case by simp
next
  case (snoc e evs)
  show ?case
  proof (cases e)
    case (Draw fc)
    then show ?thesis
      using draw_intensity[OF run_ready, of h fc h evs s] map_p5_sin_bounds[of "real fc * 0.008 * 0.3"]
      by (simp add: run_snoc)
  next
    case (MouseMoved a b c d)
    then show ?thesis
      using constrain_bounds[of "0.5" 1]
      by (simp add: run_snoc mouseMoved_def Let_def)
  next
    case (WindowResized a b fc)
    then show ?thesis
      using windowResized_intensity[OF run_ready, of h fc a b h evs s]
        map_p5_sin_bounds[of "real fc * 0.008 * 0.3"]
      by (simp add: run_snoc)
  qed
qed

subsection \<open>The two loops of drawBody\<close>

lemma double_002: "double 0.02 = 5764607523034235 / 288230376151711744"
  by (simp add: double_def binade_def round_half_even_def Let_def bits.simps)

text \<open>
  The two loops end after 50 runs of their bodies, with these values of the counter (in
  exact arithmetic the 51st value of the first counter would be 1 and that of the second
  one 0, and both loops would run once more).
\<close>

lemma body_left_run:
  "body_left b s 0 = Some (map (body_left_vertex b s)
      [0, 5764607523034235 / 288230376151711744, 5764607523034235 / 144115188075855872,
       1080863910568919 / 18014398509481984, 5764607523034235 / 72057594037927936,
       3602879701896397 / 36028797018963968, 8646911284551353 / 72057594037927936,
       1261007895663739 / 9007199254740992, 5764607523034235 / 36028797018963968,
       3242591731706757 / 18014398509481984, 7205759403792793 / 36028797018963968,
       990791918021509 / 4503599627370496, 8646911284551351 / 36028797018963968,
       4683743612465315 / 18014398509481984, 5044031582654955 / 18014398509481984,
       5404319552844595 / 18014398509481984, 5764607523034235 / 18014398509481984,
       6124895493223875 / 18014398509481984, 6485183463413515 / 18014398509481984,
       6845471433603155 / 18014398509481984, 7205759403792795 / 18014398509481984,
       7566047373982435 / 18014398509481984, 7926335344172075 / 18014398509481984,
       8286623314361715 / 18014398509481984, 8646911284551355 / 18014398509481984,
       4503599627370497 / 9007199254740992, 4683743612465317 / 9007199254740992,
       4863887597560137 / 9007199254740992, 5044031582654957 / 9007199254740992,
       5224175567749777 / 9007199254740992, 5404319552844597 / 9007199254740992,
       5584463537939417 / 9007199254740992, 5764607523034237 / 9007199254740992,
       5944751508129057 / 9007199254740992, 6124895493223877 / 9007199254740992,
       6305039478318697 / 9007199254740992, 6485183463413517 / 9007199254740992,
       6665327448508337 / 9007199254740992, 6845471433603157 / 9007199254740992,
       7025615418697977 / 9007199254740992, 7205759403792797 / 9007199254740992,
       7385903388887617 / 9007199254740992, 7566047373982437 / 9007199254740992,
       7746191359077257 / 9007199254740992, 7926335344172077 / 9007199254740992,
       8106479329266897 / 9007199254740992, 8286623314361717 / 9007199254740992,
       8466767299456537 / 9007199254740992, 8646911284551357 / 9007199254740992,
       8827055269646177 / 9007199254740992])"
  by (simp add: body_left.simps double_002 double_def binade_def round_half_even_def
      Let_def bits.simps)

lemma body_right_run:
  "body_right b s 1 = Some (map (body_right_vertex b s)
      [1, 2206763817411543 / 2251799813685248, 1080863910568919 / 1125899906842624,
       2116691824864133 / 2251799813685248, 517913957147607 / 562949953421312,
       2026619832316723 / 2251799813685248, 990791918021509 / 1125899906842624,
       1936547839769313 / 2251799813685248, 236438980436951 / 281474976710656,
       1846475847221903 / 2251799813685248, 900719925474099 / 1125899906842624,
       1756403854674493 / 2251799813685248, 427841964600197 / 562949953421312,
       1666331862127083 / 2251799813685248, 810647932926689 / 1125899906842624,
       1576259869579673 / 2251799813685248, 95701492081623 / 140737488355328,
       1486187877032263 / 2251799813685248, 720575940379279 / 1125899906842624,
       1396115884484853 / 2251799813685248, 337769972052787 / 562949953421312,
       1306043891937443 / 2251799813685248, 630503947831869 / 1125899906842624,
       1215971899390033 / 2251799813685248, 146366987889541 / 281474976710656,
       1125899906842623 / 2251799813685248, 540431955284459 / 1125899906842624,
       1035827914295213 / 2251799813685248, 247697979505377 / 562949953421312,
       945755921747803 / 2251799813685248, 450359962737049 / 1125899906842624,
       855683929200393 / 2251799813685248, 25332747903959 / 70368744177664,
       765611936652983 / 2251799813685248, 360287970189639 / 1125899906842624,
       675539944105573 / 2251799813685248, 157625986957967 / 562949953421312,
       585467951558163 / 2251799813685248, 8646911284551329 / 36028797018963968,
       3963167672086025 / 18014398509481984, 7205759403792771 / 36028797018963968,
       1621295865853373 / 9007199254740992, 5764607523034213 / 36028797018963968,
       2522015791327467 / 18014398509481984, 8646911284551309 / 72057594037927936,
       3602879701896375 / 36028797018963968, 5764607523034191 / 72057594037927936,
       270215977642227 / 4503599627370496, 2882303761517073 / 72057594037927936,
       5764607523034057 / 288230376151711744])"
  by (simp add: body_right.simps double_002 double_def binade_def round_half_even_def
      Let_def bits.simps)

lemma body_left_returns:
  "\<exists>ts. length ts = 50 \<and> (\<forall>b s. body_left b s 0 = Some (map (body_left_vertex b s) ts))"
  by (intro exI conjI allI; (rule body_left_run)?) simp

lemma body_right_returns:
  "\<exists>ts. length ts = 50 \<and> (\<forall>b s. body_right b s 1 = Some (map (body_right_vertex b s) ts))"
  by (intro exI conjI allI; (rule body_right_run)?) simp

subsection \<open>The calls of the renderers\<close>

lemma body_left_calls: "list_all (\<lambda>c. \<not> pixel_call c) (the (body_left b s 0))"
proof -
  from body_left_returns obtain ts where
    "body_left b s 0 = Some (map (body_left_vertex b s) ts)" by blast
  then show ?thesis by (simp add: list_all_iff body_left_vertex_def Let_def)
qed

lemma body_right_calls: "list_all (\<lambda>c. \<not> pixel_call c) (the (body_right b s 1))"
proof -
  from body_right_returns obtain ts where
    "body_right b s 1 = Some (map (body_right_vertex b s) ts)" by blast
  then show ?thesis by (simp add: list_all_iff body_right_vertex_def Let_def)
qed

lemma arm_points_calls: "list_all (\<lambda>c. \<not> pixel_call c) (arm_points b s side x y i)"
proof (induction b s side x y i rule: arm_points.induct)
  case (1 b s side x y i)
  then show ?case by (subst arm_points.simps) (simp add: Let_def)
qed

lemma arms_loop_calls: "list_all (\<lambda>c. \<not> pixel_call c) (arms_loop b s side)"
proof (induction b s side rule: arms_loop.induct)
  case (1 b s side)
  then show ?case
    by (subst arms_loop.simps) (simp add: Let_def drawArmConnection_def arm_points_calls)
qed

lemma aura_loop_calls: "list_all (\<lambda>c. \<not> pixel_call c) (aura_loop df s i)"
proof (induction df s i rule: aura_loop.induct)
  case (1 df s i)
  then show ?case by (subst aura_loop.simps) (simp add: Let_def)
qed

lemma skull_loop_calls: "list_all (\<lambda>c. \<not> pixel_call c) (skull_loop b a)"
proof (induction b a rule: skull_loop.induct)
  case (1 b a)
  then show ?case by (subst skull_loop.simps) (simp add: Let_def)
qed

lemma mouth_loop_calls: "list_all (\<lambda>c. \<not> pixel_call c) (mouth_loop b s a)"
proof (induction b s a rule: mouth_loop.induct)
  case (1 b s a)
  then show ?case by (subst mouth_loop.simps) (simp add: Let_def)
qed

lemma eyes_loop_calls: "list_all (\<lambda>c. \<not> pixel_call c) (eyes_loop b s side)"
proof (induction b s side rule: eyes_loop.induct)
  case (1 b s side)
  then show ?case by (subst eyes_loop.simps) (simp add: Let_def)
qed

lemma drawFigure_calls: "list_all (\<lambda>c. \<not> pixel_call c) (drawFigure df sh s)"
  by (simp add: drawFigure_def Let_def drawBody_def drawArms_def call_drawHead_def drawHead_def
      drawHead_stub_def drawHeadAura_def drawSkullShape_def drawFacialFeatures_def drawMouth_def
      body_left_calls body_right_calls arms_loop_calls aura_loop_calls skull_loop_calls
      mouth_loop_calls eyes_loop_calls)

lemma figure_calls:
  "list_all (\<lambda>c. \<not> pixel_call c) (Translate x y # drawShadowLayer df s @ drawMainFigure df s)"
  by (simp add: drawShadowLayer_def drawMainFigure_def Let_def drawFigure_calls)

lemma vignette_calls: "list_all (\<lambda>c. \<not> pixel_call c) (drawVignette s)"
  by (simp add: drawVignette_def Let_def)


lemma emit_ok:
  "list_all (\<lambda>c. \<not> throws h c) cs \<Longrightarrow> emit h cs s = (None, s\<lparr>canvas := canvas s @ cs\<rparr>)"
  by (induction cs arbitrary: s) simp_all

lemma load_fails_throws: "\<not> pixel_call c \<Longrightarrow> \<not> throws load_fails c"
  by (cases c) (simp_all add: load_fails_def)

lemma draw_try_load_fails:
  assumes "ready s"
  shows "fst (draw_try load_fails fc s) = Some (Thrown LoadPixels)"
proof -
  from assms obtain ff df where assms: "flowfield s = Some ff" "distortionField s = Some df"
    by (auto simp: ready_def)
  have ok: "\<And>cs s. list_all (\<lambda>c. \<not> pixel_call c) cs \<Longrightarrow>
      emit load_fails cs s = (None, s\<lparr>canvas := canvas s @ cs\<rparr>)"
    by (rule emit_ok) (simp add: load_fails_throws list_all_iff)
  have bg: "\<And>a b c s. emit load_fails [Background a b c] s = (None, s\<lparr>canvas := canvas s @ [Background a b c]\<rparr>)"
    by (rule ok) simp
  have lp: "\<And>s. emit load_fails [LoadPixels] s = (Some (Thrown LoadPixels), s)"
    by (simp add: load_fails_def)
  show ?thesis
    unfolding draw_try_def using assms
    by (simp del: emit.simps add: Let_def bg ok[OF figure_calls] ok[OF vignette_calls]
        call_addAtmosphericEffects_def bound_decl_atmo addAtmosphericEffects_def
        addNoiseToFigure_def lp)
qed

subsection \<open>Exceptions of a frame\<close>

lemma sound_emit: "calls_sound h s (emit h cs s)"
proof -
  have "case find (throws h) cs of None \<Rightarrow> True | Some c \<Rightarrow> throws h c"
    by (induction cs) simp_all
  moreover have "list_all (\<lambda>c. \<not> throws h c) (takeWhile (\<lambda>c. \<not> throws h c) cs)"
    by (induction cs) simp_all
  ultimately show ?thesis
    by (auto simp: calls_sound_def emit_fst emit_snd split: option.splits)
qed

lemma sound_and_then:
  assumes "calls_sound h s r" "\<And>s1. calls_sound h s1 (f s1)"
  shows "calls_sound h s (and_then r f)"
proof (cases "fst r")
  case None
  from assms(1) obtain cs where cs: "canvas (snd r) = canvas s @ cs"
    "list_all (\<lambda>c. \<not> throws h c) cs" by (auto simp: calls_sound_def)
  from assms(2)[of "snd r"] obtain cs' where cs':
    "canvas (snd (f (snd r))) = canvas (snd r) @ cs'" "list_all (\<lambda>c. \<not> throws h c) cs'"
    and e: "case fst (f (snd r)) of None \<Rightarrow> True
            | Some e \<Rightarrow> (case e of Thrown c \<Rightarrow> throws h c | _ \<Rightarrow> False)"
    by (auto simp: calls_sound_def)
  have "canvas (snd (f (snd r))) = canvas s @ (cs @ cs')" "list_all (\<lambda>c. \<not> throws h c) (cs @ cs')"
    using cs cs' by simp_all
  then show ?thesis
    using None e unfolding calls_sound_def and_then_cases by (simp del: append_assoc)
next
  case (Some e)
  then show ?thesis using assms(1) by (simp add: and_then_cases)
qed

lemma sound_pure: "canvas s' = canvas s \<Longrightarrow> calls_sound h s (None, s')"
  by (simp add: calls_sound_def)

lemma sound_noise: "calls_sound h s (addNoiseToFigure h s)"
  unfolding addNoiseToFigure_def
proof (rule sound_and_then)
  show "calls_sound h s (emit h [LoadPixels] s)" by (rule sound_emit)
next
  fix s1
  have "calls_sound h (s1\<lparr>pixels := raster h (canvas s1)\<rparr>
          \<lparr>pixels := fst (noise_rows h (s1\<lparr>pixels := raster h (canvas s1)\<rparr>) 0
               (pixels (s1\<lparr>pixels := raster h (canvas s1)\<rparr>), drawn (s1\<lparr>pixels := raster h (canvas s1)\<rparr>))),
            drawn := snd (noise_rows h (s1\<lparr>pixels := raster h (canvas s1)\<rparr>) 0
               (pixels (s1\<lparr>pixels := raster h (canvas s1)\<rparr>), drawn (s1\<lparr>pixels := raster h (canvas s1)\<rparr>)))\<rparr>)
         (let s = s1\<lparr>pixels := raster h (canvas s1)\<rparr>;
                 p = noise_rows h s 0 (pixels s, drawn s);
                 s = s\<lparr>pixels := fst p, drawn := snd p\<rparr>
             in emit h [UpdatePixels (pixels s)] s)"
    unfolding Let_def by (rule sound_emit)
  then show "calls_sound h s1 (let s = s1\<lparr>pixels := raster h (canvas s1)\<rparr>;
                 p = noise_rows h s 0 (pixels s, drawn s);
                 s = s\<lparr>pixels := fst p, drawn := snd p\<rparr>
             in emit h [UpdatePixels (pixels s)] s)"
    by (simp add: calls_sound_def)
qed

lemma sound_atmo: "calls_sound h s (call_addAtmosphericEffects h s)"
  unfolding call_addAtmosphericEffects_def addAtmosphericEffects_def
  by (simp add: bound_decl_atmo sound_and_then sound_emit sound_noise)

lemma sound_draw_try: "calls_sound h s (draw_try h fc s)"
proof (cases "flowfield s = None \<or> distortionField s = None")
  case True
  then show ?thesis by (simp add: draw_try_uninit calls_sound_def)
next
  case False
  then obtain ff df where f: "flowfield s = Some ff" "distortionField s = Some df" by auto
  let ?s2 = "s\<lparr>globalTime := real fc * 0.008,
              emotionalIntensity := map_p5 (sin (real fc * 0.008 * 0.3)) (- 1) 1 0.5 1\<rparr>"
  have "calls_sound h ?s2 (draw_try h fc s)"
    unfolding draw_try_def using f
    by (simp del: emit.simps add: Let_def)
       (intro sound_and_then sound_emit sound_atmo; simp add: sound_pure)
  then show ?thesis by (simp add: calls_sound_def)
qed

subsection \<open>What the renderers read\<close>

lemma body_left_reads: "same_inputs s s' \<Longrightarrow> body_left b s 0 = body_left b s' 0"
proof -
  assume a: "same_inputs s s'"
  from body_left_returns obtain ts where
    ts: "\<forall>b s. body_left b s 0 = Some (map (body_left_vertex b s) ts)" by blast
  have "body_left_vertex b s = body_left_vertex b s'"
    using a by (simp add: fun_eq_iff body_left_vertex_def same_inputs_def Let_def)
  then show ?thesis by (simp add: ts)
qed

lemma body_right_reads: "same_inputs s s' \<Longrightarrow> body_right b s 1 = body_right b s' 1"
proof -
  assume a: "same_inputs s s'"
  from body_right_returns obtain ts where
    ts: "\<forall>b s. body_right b s 1 = Some (map (body_right_vertex b s) ts)" by blast
  have "body_right_vertex b s = body_right_vertex b s'"
    using a by (simp add: fun_eq_iff body_right_vertex_def same_inputs_def Let_def)
  then show ?thesis by (simp add: ts)
qed

lemma arm_points_reads:
  "same_inputs s s' \<Longrightarrow> arm_points b s side x y i = arm_points b s' side x y i"
proof (induction b s side x y i rule: arm_points.induct)
  case (1 b s side x y i)
  then show ?case by (subst (1 2) arm_points.simps) (simp add: same_inputs_def Let_def)
qed

lemma arms_loop_reads: "same_inputs s s' \<Longrightarrow> arms_loop b s side = arms_loop b s' side"
proof (induction b s side rule: arms_loop.induct)
  case (1 b s side)
  then show ?case
    by (subst (1 2) arms_loop.simps) (simp add: Let_def arm_points_reads[of s s'])
qed

lemma aura_loop_reads: "same_inputs s s' \<Longrightarrow> aura_loop df s i = aura_loop df s' i"
proof (induction df s i rule: aura_loop.induct)
  case (1 df s i)
  then show ?case by (subst (1 2) aura_loop.simps) (simp add: same_inputs_def Let_def)
qed

lemma mouth_loop_reads: "same_inputs s s' \<Longrightarrow> mouth_loop b s a = mouth_loop b s' a"
proof (induction b s a rule: mouth_loop.induct)
  case (1 b s a)
  then show ?case by (subst (1 2) mouth_loop.simps) (simp add: same_inputs_def Let_def)
qed

lemma eyes_loop_reads: "same_inputs s s' \<Longrightarrow> eyes_loop b s side = eyes_loop b s' side"
proof (induction b s side rule: eyes_loop.induct)
  case (1 b s side)
  then show ?case by (subst (1 2) eyes_loop.simps) (simp add: same_inputs_def Let_def)
qed

lemma drawBody_reads: "same_inputs s s' \<Longrightarrow> drawBody sh b s = drawBody sh b s'"
  by (simp add: drawBody_def body_left_reads[of s s'] body_right_reads[of s s'])
     (simp add: same_inputs_def)

lemma drawArms_reads: "same_inputs s s' \<Longrightarrow> drawArms b s = drawArms b s'"
  by (simp add: drawArms_def arms_loop_reads[of s s'])

lemma drawHead_reads: "same_inputs s s' \<Longrightarrow> drawHead df b s = drawHead df b s'"
  by (simp add: drawHead_def drawHeadAura_def drawFacialFeatures_def drawMouth_def
      aura_loop_reads[of s s'] eyes_loop_reads[of s s'] mouth_loop_reads[of s s'])
     (simp add: same_inputs_def)

lemma call_drawHead_eq: "call_drawHead df b s = drawHead df b s"
  by (simp add: call_drawHead_def bound_decl_drawHead)

lemma call_atmo_eq: "call_addAtmosphericEffects h s = addAtmosphericEffects h s"
  by (simp add: call_addAtmosphericEffects_def bound_decl_atmo)

lemma drawFigure_reads: "same_inputs s s' \<Longrightarrow> drawFigure df sh s = drawFigure df sh s'"
  by (simp add: drawFigure_def Let_def call_drawHead_eq drawBody_reads[of s s']
      drawArms_reads[of s s'] drawHead_reads[of s s'])
     (simp add: same_inputs_def)

lemma drawShadowLayer_reads: "same_inputs s s' \<Longrightarrow> drawShadowLayer df s = drawShadowLayer df s'"
  by (simp add: drawShadowLayer_def Let_def drawFigure_reads[of s s'])
     (simp add: same_inputs_def)

lemma drawMainFigure_reads: "same_inputs s s' \<Longrightarrow> drawMainFigure df s = drawMainFigure df s'"
  by (simp add: drawMainFigure_def drawFigure_reads[of s s'])

lemma drawVignette_reads: "same_inputs s s' \<Longrightarrow> drawVignette s = drawVignette s'"
  by (simp add: drawVignette_def same_inputs_def)

lemma addEmotionalGlow_reads: "same_inputs s s' \<Longrightarrow> addEmotionalGlow s = addEmotionalGlow s'"
  by (simp add: addEmotionalGlow_def same_inputs_def)

lemma noise_px_rnd:
  assumes "rnd h = rnd h'"
  shows "noise_px h i idx p = noise_px h' i idx p"
  unfolding noise_px_def assms ..

lemma noise_cols_reads:
  "same_inputs s s' \<Longrightarrow> rnd h = rnd h' \<Longrightarrow> noise_cols h s y x p = noise_cols h' s' y x p"
proof (induction h s y x p rule: noise_cols.induct)
  case (1 h s y x p)
  have "noise_px h (emotionalIntensity s) ((real x + real y * width s) * 4) p
      = noise_px h' (emotionalIntensity s') ((real x + real y * width s') * 4) p"
    using "1.prems" noise_px_rnd[of h h'] by (simp add: same_inputs_def)
  with 1 show ?case
    by (subst (1 2) noise_cols.simps) (simp add: same_inputs_def)
qed

lemma noise_rows_reads:
  "same_inputs s s' \<Longrightarrow> rnd h = rnd h' \<Longrightarrow> noise_rows h s y p = noise_rows h' s' y p"
proof (induction h s y p rule: noise_rows.induct)
  case (1 h s y p)
  then show ?case
    by (subst (1 2) noise_rows.simps) (simp add: noise_cols_reads[of s s' h h'], simp add: same_inputs_def)
qed

subsection \<open>Frames on two flow fields\<close>

lemma flow_apart_same_inputs: "flow_apart s s' \<Longrightarrow> same_inputs s s'"
  by (auto simp: flow_apart_def same_inputs_def)

lemma flow_apart_upd:
  assumes "flow_apart s s'"
  shows "flow_apart (s\<lparr>flowfield := a, vectors := b\<rparr>) (s'\<lparr>flowfield := c, vectors := d\<rparr>)"
proof -
  from assms obtain f v where s': "s' = s\<lparr>flowfield := f, vectors := v\<rparr>"
    by (auto simp: flow_apart_def)
  show ?thesis unfolding s' flow_apart_def by (intro exI[of _ c] exI[of _ d]) simp
qed

lemma flow_apart_emit:
  assumes "flow_apart s s'" "same_but_noise h h'"
  shows "flow_apart_res (emit h cs s) (emit h' cs s')"
proof -
  from assms(1) obtain f v where s': "s' = s\<lparr>flowfield := f, vectors := v\<rparr>"
    by (auto simp: flow_apart_def)
  have t: "throws h' = throws h" using assms(2) by (simp add: same_but_noise_def)
  have "snd (emit h' cs s') = (snd (emit h cs s))\<lparr>flowfield := f, vectors := v\<rparr>"
    by (simp add: emit_snd s' t)
  then show ?thesis
    unfolding flow_apart_res_def flow_apart_def by (auto simp: emit_fst t)
qed

lemma flow_apart_and_then:
  assumes "flow_apart_res r r'" "\<And>s s'. flow_apart s s' \<Longrightarrow> flow_apart_res (f s) (f' s')"
  shows "flow_apart_res (and_then r f) (and_then r' f')"
  using assms by (cases "fst r") (auto simp: and_then_cases flow_apart_res_def)

lemma flow_apart_noise:
  assumes "flow_apart s s'" "same_but_noise h h'"
  shows "flow_apart_res (addNoiseToFigure h s) (addNoiseToFigure h' s')"
  unfolding addNoiseToFigure_def
proof (rule flow_apart_and_then)
  show "flow_apart_res (emit h [LoadPixels] s) (emit h' [LoadPixels] s')"
    using assms by (rule flow_apart_emit)
next
  fix s1 s1' :: state
  assume "flow_apart s1 s1'"
  then obtain f v where s': "s1' = s1\<lparr>flowfield := f, vectors := v\<rparr>"
    by (auto simp: flow_apart_def)
  let ?a = "s1\<lparr>pixels := raster h (canvas s1)\<rparr>"
  let ?a' = "s1'\<lparr>pixels := raster h' (canvas s1')\<rparr>"
  have r: "raster h' = raster h" "rnd h = rnd h'" using assms(2) by (simp_all add: same_but_noise_def)
  have a': "?a' = ?a\<lparr>flowfield := f, vectors := v\<rparr>" by (simp add: s' r)
  have si: "same_inputs ?a ?a'" by (simp add: a' same_inputs_def)
  have n: "noise_rows h' ?a' 0 (pixels ?a', drawn ?a') = noise_rows h ?a 0 (pixels ?a, drawn ?a)"
    using noise_rows_reads[OF si r(2), of 0 "(pixels ?a, drawn ?a)"] by (simp add: a')
  let ?p = "noise_rows h ?a 0 (pixels ?a, drawn ?a)"
  have fa: "flow_apart (?a\<lparr>pixels := fst ?p, drawn := snd ?p\<rparr>) (?a'\<lparr>pixels := fst ?p, drawn := snd ?p\<rparr>)"
    unfolding a' flow_apart_def by (intro exI[of _ f] exI[of _ v]) simp
  have "flow_apart_res
          (emit h [UpdatePixels (fst ?p)] (?a\<lparr>pixels := fst ?p, drawn := snd ?p\<rparr>))
          (emit h' [UpdatePixels (fst ?p)] (?a'\<lparr>pixels := fst ?p, drawn := snd ?p\<rparr>))"
    using fa assms(2) by (rule flow_apart_emit)
  then show "flow_apart_res
        (let s = s1\<lparr>pixels := raster h (canvas s1)\<rparr>;
             p = noise_rows h s 0 (pixels s, drawn s);
             s = s\<lparr>pixels := fst p, drawn := snd p\<rparr>
         in emit h [UpdatePixels (pixels s)] s)
        (let s = s1'\<lparr>pixels := raster h' (canvas s1')\<rparr>;
             p = noise_rows h' s 0 (pixels s, drawn s);
             s = s\<lparr>pixels := fst p, drawn := snd p\<rparr>
         in emit h' [UpdatePixels (pixels s)] s)"
    unfolding Let_def n by (simp del: emit.simps)
qed

lemma flow_apart_atmo:
  assumes "flow_apart s s'" "same_but_noise h h'"
  shows "flow_apart_res (call_addAtmosphericEffects h s) (call_addAtmosphericEffects h' s')"
  unfolding call_atmo_eq addAtmosphericEffects_def
proof (intro flow_apart_and_then)
  show "flow_apart_res (emit h (drawVignette s) s) (emit h' (drawVignette s') s')"
    using flow_apart_emit[OF assms] drawVignette_reads[OF flow_apart_same_inputs[OF assms(1)]]
    by simp
next
  fix s1 s1' :: state assume "flow_apart s1 s1'"
  then show "flow_apart_res (addNoiseToFigure h s1) (addNoiseToFigure h' s1')"
    using assms(2) by (rule flow_apart_noise)
next
  fix s1 s1' :: state assume a: "flow_apart s1 s1'"
  show "flow_apart_res (emit h (addEmotionalGlow s1) s1) (emit h' (addEmotionalGlow s1') s1')"
    using flow_apart_emit[OF a assms(2)] addEmotionalGlow_reads[OF flow_apart_same_inputs[OF a]]
    by simp
qed

lemma flow_apart_draw_try:
  assumes "flow_apart s s'" "same_but_noise h h'"
    "flowfield s = Some ff" "flowfield s' = Some ff'"
  shows "flow_apart_res (draw_try h fc s) (draw_try h' fc s')"
proof (cases "distortionField s")
  case None
  from assms(1) obtain f v where s': "s' = s\<lparr>flowfield := f, vectors := v\<rparr>"
    by (auto simp: flow_apart_def)
  have "flow_apart (s\<lparr>console := console s @ [NotInitialized], looping := False\<rparr>)
          (s'\<lparr>console := console s' @ [NotInitialized], looping := False\<rparr>)"
    unfolding s' flow_apart_def by (intro exI[of _ f] exI[of _ v]) simp
  moreover have "distortionField s' = None" using None by (simp add: s')
  ultimately show ?thesis using None
    by (simp add: draw_try_uninit flow_apart_res_def)
next
  case (Some df)
  from assms(1) obtain f v where s': "s' = s\<lparr>flowfield := f, vectors := v\<rparr>"
    by (auto simp: flow_apart_def)
  have d': "distortionField s' = Some df" using Some by (simp add: s')
  let ?u = "\<lambda>s :: state. s\<lparr>globalTime := real fc * 0.008\<rparr>"
  let ?w = "\<lambda>s :: state. s\<lparr>emotionalIntensity := map_p5 (sin (globalTime s * 0.3)) (- 1) 1 0.5 1\<rparr>"
  have fa2: "flow_apart (?w (?u s)) (?w (?u s'))"
    unfolding s' flow_apart_def by (intro exI[of _ f] exI[of _ v]) simp
  have g: "globalTime (?w (?u s')) = globalTime (?w (?u s))" by simp
  have upd: "\<And>s1 s1'. flow_apart s1 s1' \<Longrightarrow> flow_apart_res
      (let p = update h ff (vectors s1) (globalTime s1)
       in (None, s1\<lparr>flowfield := Some (fst p), vectors := snd p\<rparr>))
      (let p = update h' ff' (vectors s1') (globalTime s1')
       in (None, s1'\<lparr>flowfield := Some (fst p), vectors := snd p\<rparr>))"
    by (simp add: flow_apart_res_def Let_def flow_apart_upd)
  have fig: "\<And>s1 s1'. flow_apart s1 s1' \<Longrightarrow> flow_apart_res
      (emit h ([Translate (width s1 / 2) (height s1 / 2)]
                                 @ drawShadowLayer df s1 @ drawMainFigure df s1) s1)
      (emit h' ([Translate (width s1' / 2) (height s1' / 2)]
                                 @ drawShadowLayer df s1' @ drawMainFigure df s1') s1')"
  proof -
    fix s1 s1' :: state assume a: "flow_apart s1 s1'"
    note si = flow_apart_same_inputs[OF a]
    have "[Translate (width s1' / 2) (height s1' / 2)] @ drawShadowLayer df s1' @ drawMainFigure df s1'
        = [Translate (width s1 / 2) (height s1 / 2)] @ drawShadowLayer df s1 @ drawMainFigure df s1"
      using si drawShadowLayer_reads[OF si, of df] drawMainFigure_reads[OF si, of df]
      by (simp add: same_inputs_def)
    then show "flow_apart_res
      (emit h ([Translate (width s1 / 2) (height s1 / 2)]
                                 @ drawShadowLayer df s1 @ drawMainFigure df s1) s1)
      (emit h' ([Translate (width s1' / 2) (height s1' / 2)]
                                 @ drawShadowLayer df s1' @ drawMainFigure df s1') s1')"
      using flow_apart_emit[OF a assms(2)] by (simp del: emit.simps append.simps)
  qed
  have bg: "flow_apart_res
      (emit h [Background (BACKGROUND ! 0 + sin (globalTime (?w (?u s))) * 2)
                                        (BACKGROUND ! 1 + sin (globalTime (?w (?u s)) * 1.1) * 2)
                                        (BACKGROUND ! 2 + sin (globalTime (?w (?u s)) * 1.2) * 2)] (?w (?u s)))
      (emit h' [Background (BACKGROUND ! 0 + sin (globalTime (?w (?u s'))) * 2)
                                        (BACKGROUND ! 1 + sin (globalTime (?w (?u s')) * 1.1) * 2)
                                        (BACKGROUND ! 2 + sin (globalTime (?w (?u s')) * 1.2) * 2)] (?w (?u s')))"
    unfolding g using fa2 assms(2) by (rule flow_apart_emit)
  have atmo: "\<And>s1 s1'. flow_apart s1 s1' \<Longrightarrow>
      flow_apart_res (call_addAtmosphericEffects h s1) (call_addAtmosphericEffects h' s1')"
    by (rule flow_apart_atmo) (simp_all add: assms(2))
  have l: "draw_try h fc s = and_then
                (and_then
                  (and_then
                    (emit h [Background (BACKGROUND ! 0 + sin (globalTime (?w (?u s))) * 2)
                                        (BACKGROUND ! 1 + sin (globalTime (?w (?u s)) * 1.1) * 2)
                                        (BACKGROUND ! 2 + sin (globalTime (?w (?u s)) * 1.2) * 2)] (?w (?u s)))
                    (\<lambda>s. let p = update h ff (vectors s) (globalTime s)
                          in (None, s\<lparr>flowfield := Some (fst p), vectors := snd p\<rparr>)))
                  (\<lambda>s. emit h ([Translate (width s / 2) (height s / 2)]
                                 @ drawShadowLayer df s @ drawMainFigure df s) s))
                (call_addAtmosphericEffects h)"
    unfolding draw_try_def Let_def using assms(3) Some by (simp del: emit.simps append.simps)
  have r: "draw_try h' fc s' = and_then
                (and_then
                  (and_then
                    (emit h' [Background (BACKGROUND ! 0 + sin (globalTime (?w (?u s'))) * 2)
                                        (BACKGROUND ! 1 + sin (globalTime (?w (?u s')) * 1.1) * 2)
                                        (BACKGROUND ! 2 + sin (globalTime (?w (?u s')) * 1.2) * 2)] (?w (?u s')))
                    (\<lambda>s. let p = update h' ff' (vectors s) (globalTime s)
                          in (None, s\<lparr>flowfield := Some (fst p), vectors := snd p\<rparr>)))
                  (\<lambda>s. emit h' ([Translate (width s / 2) (height s / 2)]
                                 @ drawShadowLayer df s @ drawMainFigure df s) s))
                (call_addAtmosphericEffects h')"
    unfolding draw_try_def Let_def using assms(4) d' by (simp del: emit.simps append.simps)
  show ?thesis
    unfolding l r
    by (intro flow_apart_and_then bg upd fig atmo)
qed


lemma flow_apart_log:
  assumes "flow_apart s s'"
  shows "flow_apart (s\<lparr>console := console s @ l, looping := b\<rparr>)
                    (s'\<lparr>console := console s' @ l, looping := b\<rparr>)"
proof -
  from assms obtain f v where s': "s' = s\<lparr>flowfield := f, vectors := v\<rparr>"
    by (auto simp: flow_apart_def)
  show ?thesis unfolding s' flow_apart_def by (intro exI[of _ f] exI[of _ v]) simp
qed

lemma flow_apart_draw:
  assumes "flow_apart s s'" "same_but_noise h h'"
    "flowfield s = Some ff" "flowfield s' = Some ff'"
  shows "flow_apart (draw h fc s) (draw h' fc s')"
proof -
  from flow_apart_draw_try[OF assms, of fc]
  have e: "fst (draw_try h fc s) = fst (draw_try h' fc s')"
    and a: "flow_apart (snd (draw_try h fc s)) (snd (draw_try h' fc s'))"
    by (simp_all add: flow_apart_res_def)
  show ?thesis
  proof (cases "fst (draw_try h fc s)")
    case None
    then show ?thesis using e a
      by (cases "draw_try h fc s"; cases "draw_try h' fc s'") (simp add: draw_def)
  next
    case (Some x)
    then show ?thesis using e flow_apart_log[OF a, where l = "[DrawCycleFailed x]" and b = False]
      by (cases "draw_try h fc s"; cases "draw_try h' fc s'") (auto simp: draw_def)
  qed
qed

lemma flow_apart_refl: "flow_apart s s"
  unfolding flow_apart_def by (intro exI[of _ "flowfield s"] exI[of _ "vectors s"]) simp

lemma flow_apart_canvas: "flow_apart s s' \<Longrightarrow> canvas s' = canvas s"
  by (auto simp: flow_apart_def)

lemma flow_apart_step:
  assumes "flow_apart s s'" "same_but_noise h h'" "ready s" "ready s'"
  shows "flow_apart (step h e s) (step h' e s')"
proof (cases e)
  case (Draw fc)
  from assms(3,4) obtain ff ff' where "flowfield s = Some ff" "flowfield s' = Some ff'"
    by (auto simp: ready_def)
  from flow_apart_draw[OF assms(1,2) this] Draw show ?thesis by simp
next
  case (MouseMoved a b c d)
  from assms(1) obtain f v where s': "s' = s\<lparr>flowfield := f, vectors := v\<rparr>"
    by (auto simp: flow_apart_def)
  show ?thesis unfolding MouseMoved s' flow_apart_def
    by (intro exI[of _ f] exI[of _ v]) (simp add: mouseMoved_def Let_def)
next
  case (WindowResized a b fc)
  let ?w = "min (a * 0.8) 600" and ?h = "min (b * 0.8) 800"
  let ?r = "\<lambda>s. s\<lparr>width := ?w, height := ?h, canvas := canvas s @ [ResizeCanvas ?w ?h]\<rparr>"
  from assms(1) obtain f v where s': "s' = s\<lparr>flowfield := f, vectors := v\<rparr>"
    by (auto simp: flow_apart_def)
  have r: "flow_apart (?r s) (?r s')" unfolding s' flow_apart_def
    by (intro exI[of _ f] exI[of _ v]) simp
  from assms(3,4) obtain ff ff' where "flowfield (?r s) = Some ff" "flowfield (?r s') = Some ff'"
    by (auto simp: ready_def)
  from flow_apart_draw[OF r assms(2) this] WindowResized show ?thesis
    by (simp add: windowResized_draw)
qed

lemma emit_host: "throws h = throws h' \<Longrightarrow> emit h cs s = emit h' cs s"
  by (rule prod_eqI) (simp_all add: emit_fst emit_snd)

lemma initDistortion_host:
  "rnd h = rnd h' \<Longrightarrow> initDistortion h i s = initDistortion h' i s"
proof (induction h i s rule: initDistortion.induct)
  case (1 h i s)
  show ?case
  proof (cases "i < 8 \<and> distortionField s \<noteq> None")
    case True
    then obtain df where df: "distortionField s = Some df" by auto
    show ?thesis
      using True df "1.IH"[OF _ df] "1.prems"
      by (subst (1 2) initDistortion.simps) simp
  next
    case False
    then show ?thesis by (subst (1 2) initDistortion.simps) (auto split: option.splits)
  qed
qed

lemma setup_host:
  assumes "same_but_noise h h'"
  shows "setup_sketch h s = setup_sketch h' s"
proof -
  have t: "throws h = throws h'" "rnd h = rnd h'" using assms by (simp_all add: same_but_noise_def)
  have "\<And>s. setup_try h s = setup_try h' s"
    unfolding setup_try_def initDistortion_host[OF t(2)] emit_host[OF t(1)] ..
  then show ?thesis unfolding setup_sketch_def by simp
qed

lemma flow_apart_run:
  assumes "same_but_noise h h'"
  shows "flow_apart (run h evs s) (run h' evs s)"
proof (induction evs rule: rev_induct)
  case Nil
  show ?case using setup_host[OF assms, of "load s"] by (simp add: run_def flow_apart_refl)
next
  case (snoc e evs)
  show ?case
    unfolding run_snoc using snoc assms run_ready run_ready by (rule flow_apart_step)
qed

lemma noise_host: "same_but_noise h (h\<lparr>noise := nz\<rparr>)"
  by (simp add: same_but_noise_def)

subsection \<open>A frame on a backend that throws nothing\<close>

lemma emit_quiet:
  "\<forall>c. \<not> throws h c \<Longrightarrow> emit h cs s = (None, s\<lparr>canvas := canvas s @ cs\<rparr>)"
  by (rule emit_ok) (simp add: list_all_iff)

lemma renderers_strip:
  "drawShadowLayer df (s\<lparr>canvas := c\<rparr>) = drawShadowLayer df s"
  "drawShadowLayer df (s\<lparr>flowfield := f\<rparr>) = drawShadowLayer df s"
  "drawShadowLayer df (s\<lparr>vectors := v\<rparr>) = drawShadowLayer df s"
  "drawMainFigure df (s\<lparr>canvas := c\<rparr>) = drawMainFigure df s"
  "drawMainFigure df (s\<lparr>flowfield := f\<rparr>) = drawMainFigure df s"
  "drawMainFigure df (s\<lparr>vectors := v\<rparr>) = drawMainFigure df s"
  "drawVignette (s\<lparr>canvas := c\<rparr>) = drawVignette s"
  "drawVignette (s\<lparr>flowfield := f\<rparr>) = drawVignette s"
  "drawVignette (s\<lparr>vectors := v\<rparr>) = drawVignette s"
  "addEmotionalGlow (s\<lparr>canvas := c\<rparr>) = addEmotionalGlow s"
  "addEmotionalGlow (s\<lparr>flowfield := f\<rparr>) = addEmotionalGlow s"
  "addEmotionalGlow (s\<lparr>vectors := v\<rparr>) = addEmotionalGlow s"
  "addEmotionalGlow (s\<lparr>pixels := p\<rparr>) = addEmotionalGlow s"
  "addEmotionalGlow (s\<lparr>drawn := d\<rparr>) = addEmotionalGlow s"
  by (rule drawShadowLayer_reads drawMainFigure_reads drawVignette_reads
      addEmotionalGlow_reads; simp add: same_inputs_def)+

lemma draw_quiet:
  assumes "\<forall>c. \<not> throws h c" "flowfield s = Some ff" "distortionField s = Some df"
  shows "\<exists>ps. canvas (draw h fc s) =
     canvas s
     @ [Background (BACKGROUND ! 0 + sin (real fc * 0.008) * 2)
                   (BACKGROUND ! 1 + sin (real fc * 0.008 * 1.1) * 2)
                   (BACKGROUND ! 2 + sin (real fc * 0.008 * 1.2) * 2),
        Translate (width s / 2) (height s / 2)]
     @ drawShadowLayer df (s\<lparr>globalTime := real fc * 0.008,
              emotionalIntensity := map_p5 (sin (real fc * 0.008 * 0.3)) (- 1) 1 0.5 1\<rparr>)
     @ drawMainFigure df (s\<lparr>globalTime := real fc * 0.008,
              emotionalIntensity := map_p5 (sin (real fc * 0.008 * 0.3)) (- 1) 1 0.5 1\<rparr>)
     @ drawVignette (s\<lparr>globalTime := real fc * 0.008,
              emotionalIntensity := map_p5 (sin (real fc * 0.008 * 0.3)) (- 1) 1 0.5 1\<rparr>)
     @ [LoadPixels, UpdatePixels ps]
     @ addEmotionalGlow (s\<lparr>globalTime := real fc * 0.008,
              emotionalIntensity := map_p5 (sin (real fc * 0.008 * 0.3)) (- 1) 1 0.5 1\<rparr>)"
  unfolding draw_def draw_try_def
  using assms(2,3)
  by (simp del: emit.simps add: emit_quiet[OF assms(1)] Let_def call_atmo_eq
      addAtmosphericEffects_def addNoiseToFigure_def renderers_strip)



subsection \<open>The calls of the head, and how many calls the figure makes\<close>





















subsection \<open>A whole frame on a backend that throws nothing\<close>

lemma noise_quiet:
  assumes "\<forall>c. \<not> throws h c"
  shows "addNoiseToFigure h s =
     (None, s\<lparr>canvas := canvas s
                  @ [LoadPixels,
                     UpdatePixels (fst (noise_rows h s 0 (raster h (canvas s @ [LoadPixels]), drawn s)))],
               pixels := fst (noise_rows h s 0 (raster h (canvas s @ [LoadPixels]), drawn s)),
               drawn := snd (noise_rows h s 0 (raster h (canvas s @ [LoadPixels]), drawn s))\<rparr>)"
proof -
  let ?s1 = "s\<lparr>canvas := canvas s @ [LoadPixels], pixels := raster h (canvas s @ [LoadPixels])\<rparr>"
  have si: "same_inputs ?s1 s" by (simp add: same_inputs_def)
  have n: "\<And>p. noise_rows h ?s1 0 p = noise_rows h s 0 p"
    using noise_rows_reads[OF si, of h h 0] by simp
  show ?thesis
    unfolding addNoiseToFigure_def
    by (simp del: emit.simps add: emit_quiet[OF assms] Let_def n)
qed

lemma atmo_quiet:
  assumes "\<forall>c. \<not> throws h c"
  shows "call_addAtmosphericEffects h s =
     (None, s\<lparr>canvas := canvas s @ drawVignette s
                  @ [LoadPixels,
                     UpdatePixels (fst (noise_rows h s 0
                        (raster h (canvas s @ drawVignette s @ [LoadPixels]), drawn s)))]
                  @ addEmotionalGlow s,
               pixels := fst (noise_rows h s 0
                        (raster h (canvas s @ drawVignette s @ [LoadPixels]), drawn s)),
               drawn := snd (noise_rows h s 0
                        (raster h (canvas s @ drawVignette s @ [LoadPixels]), drawn s))\<rparr>)"
proof -
  let ?s1 = "s\<lparr>canvas := canvas s @ drawVignette s\<rparr>"
  have si: "same_inputs ?s1 s" by (simp add: same_inputs_def)
  have n: "\<And>p. noise_rows h ?s1 0 p = noise_rows h s 0 p"
    using noise_rows_reads[OF si, of h h 0] by simp
  show ?thesis
    unfolding call_atmo_eq addAtmosphericEffects_def
    by (simp del: emit.simps add: emit_quiet[OF assms] noise_quiet[OF assms] n renderers_strip)
qed

lemma frame_quiet:
  assumes "\<forall>c. \<not> throws h c" "flowfield s = Some ff" "distortionField s = Some df"
  shows "draw h fc s =
     snd (call_addAtmosphericEffects h
       (s\<lparr>globalTime := real fc * 0.008,
          emotionalIntensity := map_p5 (sin (real fc * 0.008 * 0.3)) (- 1) 1 0.5 1,
          flowfield := Some (fst (update h ff (vectors s) (real fc * 0.008))),
          vectors := snd (update h ff (vectors s) (real fc * 0.008)),
          canvas := canvas s
            @ [Background (220 + sin (real fc * 0.008) * 2)
                          (215 + sin (real fc * 0.008 * 1.1) * 2)
                          (205 + sin (real fc * 0.008 * 1.2) * 2),
               Translate (width s / 2) (height s / 2)]
            @ drawShadowLayer df (s\<lparr>globalTime := real fc * 0.008,
                 emotionalIntensity := map_p5 (sin (real fc * 0.008 * 0.3)) (- 1) 1 0.5 1\<rparr>)
            @ drawMainFigure df (s\<lparr>globalTime := real fc * 0.008,
                 emotionalIntensity := map_p5 (sin (real fc * 0.008 * 0.3)) (- 1) 1 0.5 1\<rparr>)\<rparr>))"
  unfolding draw_def draw_try_def
  using assms(2,3)
  by (simp del: emit.simps add: emit_quiet[OF assms(1)] atmo_quiet[OF assms(1)] Let_def
      renderers_strip BACKGROUND_def)


subsection \<open>The flow field\<close>

lemma update_cell_eq:
  "update_cell h time x xoff y yoff p =
     ((fst p)\<lparr>field := js_write (field (fst p)) (nat (int x + int y * cols (fst p))) (length (snd p))\<rparr>,
      snd p @ [cell_vec h (fst p) time x xoff y yoff])"
  by (simp add: update_cell_def Let_def valloc_def vmult_at_def cell_vec_def)

lemma update_rows_spec:
  assumes "cols (fst p) = int n" "rows (fst p) = int m" "x < n" "y \<le> m"
    "length (field (fst p)) = n * m"
  shows "length (field (fst (update_rows h time x xoff y yoff p))) = n * m \<and>
     length (snd (update_rows h time x xoff y yoff p)) = length (snd p) + (m - y) \<and>
     (\<forall>a < length (snd p). snd (update_rows h time x xoff y yoff p) ! a = snd p ! a) \<and>
     (\<forall>j. y \<le> j \<and> j < m \<longrightarrow>
        field (fst (update_rows h time x xoff y yoff p)) ! (x + j * n)
          = Some (length (snd p) + (j - y)) \<and>
        snd (update_rows h time x xoff y yoff p) ! (length (snd p) + (j - y))
          = cell_vec h (fst p) time x xoff j (yoff + 0.1 * real (j - y))) \<and>
     (\<forall>i < n * m. (\<forall>j. y \<le> j \<and> j < m \<longrightarrow> i \<noteq> x + j * n) \<longrightarrow>
        field (fst (update_rows h time x xoff y yoff p)) ! i = field (fst p) ! i)"
  using assms
proof (induction h time x xoff y yoff p rule: update_rows.induct)
  case (1 h time x xoff y yoff p)
  show ?case
  proof (cases "y < m")
    case False
    then have "y = m" using "1.prems" by simp
    then have "update_rows h time x xoff y yoff p = p"
      using "1.prems" by (subst update_rows.simps) simp
    then show ?thesis using \<open>y = m\<close> "1.prems" by auto
  next
    case True
    let ?q = "update_cell h time x xoff y yoff p"
    let ?r = "update_rows h time x xoff (y + 1) (yoff + 0.1) ?q"
    have step: "update_rows h time x xoff y yoff p = ?r"
      using True "1.prems" by (subst update_rows.simps) simp
    have idx: "x + y * n < n * m"
    proof -
      have "x + y * n < n + y * n" using "1.prems" by simp
      also have "\<dots> = (y + 1) * n" by simp
      also have "\<dots> \<le> m * n" using True by (intro mult_le_mono1) simp
      finally show ?thesis by (simp add: mult.commute)
    qed
    have "int x + int y * int n = int (x + y * n)" by simp
    then have nidx: "nat (int x + int y * int n) = x + y * n" by (simp only: nat_int)
    have fq: "field (fst ?q) = (field (fst p))[x + y * n := Some (length (snd p))]"
      using idx "1.prems" by (simp add: update_cell_eq nidx js_write_def)
    have sq: "snd ?q = snd p @ [cell_vec h (fst p) time x xoff y yoff]"
      by (simp add: update_cell_eq)
    have cv: "cell_vec h (fst ?q) = cell_vec h (fst p)"
      by (intro ext) (simp add: cell_vec_def update_cell_dims)
    have ih: "length (field (fst ?r)) = n * m \<and>
     length (snd ?r) = length (snd ?q) + (m - (y + 1)) \<and>
     (\<forall>a < length (snd ?q). snd ?r ! a = snd ?q ! a) \<and>
     (\<forall>j. y + 1 \<le> j \<and> j < m \<longrightarrow>
        field (fst ?r) ! (x + j * n) = Some (length (snd ?q) + (j - (y + 1))) \<and>
        snd ?r ! (length (snd ?q) + (j - (y + 1)))
          = cell_vec h (fst ?q) time x xoff j (yoff + 0.1 + 0.1 * real (j - (y + 1)))) \<and>
     (\<forall>i < n * m. (\<forall>j. y + 1 \<le> j \<and> j < m \<longrightarrow> i \<noteq> x + j * n) \<longrightarrow>
        field (fst ?r) ! i = field (fst ?q) ! i)"
      using True "1.prems" by (intro "1.IH") (simp_all add: update_cell_dims fq)
    have l1: "length (field (fst ?r)) = n * m" using ih by simp
    have l2: "length (snd ?r) = length (snd p) + (m - y)" using ih True by (simp add: sq)
    have l3: "\<forall>a < length (snd p). snd ?r ! a = snd p ! a"
      using ih by (simp add: sq nth_append)
    have l5: "\<forall>i < n * m. (\<forall>j. y \<le> j \<and> j < m \<longrightarrow> i \<noteq> x + j * n) \<longrightarrow>
        field (fst ?r) ! i = field (fst p) ! i"
    proof (intro allI impI)
      fix i assume i: "i < n * m" and ne: "\<forall>j. y \<le> j \<and> j < m \<longrightarrow> i \<noteq> x + j * n"
      have "field (fst ?r) ! i = field (fst ?q) ! i" using ih i ne by simp
      also have "\<dots> = field (fst p) ! i"
      proof -
        have "i \<noteq> x + y * n" using ne True by blast
        then show ?thesis by (simp add: fq)
      qed
      finally show "field (fst ?r) ! i = field (fst p) ! i" .
    qed
    have l4: "\<forall>j. y \<le> j \<and> j < m \<longrightarrow>
        field (fst ?r) ! (x + j * n) = Some (length (snd p) + (j - y)) \<and>
        snd ?r ! (length (snd p) + (j - y))
          = cell_vec h (fst p) time x xoff j (yoff + 0.1 * real (j - y))"
    proof (intro allI impI)
      fix j assume j: "y \<le> j \<and> j < m"
      show "field (fst ?r) ! (x + j * n) = Some (length (snd p) + (j - y)) \<and>
        snd ?r ! (length (snd p) + (j - y))
          = cell_vec h (fst p) time x xoff j (yoff + 0.1 * real (j - y))"
      proof (cases "j = y")
        case True
        have ne: "\<forall>j'. y + 1 \<le> j' \<and> j' < m \<longrightarrow> x + y * n \<noteq> x + j' * n"
          using "1.prems" by auto
        have "field (fst ?r) ! (x + y * n) = field (fst ?q) ! (x + y * n)"
          using ih idx ne by blast
        also have "\<dots> = Some (length (snd p))" using idx "1.prems" by (simp add: fq)
        finally have a: "field (fst ?r) ! (x + y * n) = Some (length (snd p))" .
        have "snd ?r ! (length (snd p)) = snd ?q ! (length (snd p))" using ih by (simp add: sq)
        then have b: "snd ?r ! (length (snd p)) = cell_vec h (fst p) time x xoff y yoff"
          by (simp add: sq)
        from a b True show ?thesis by simp
      next
        case False
        then have j': "y + 1 \<le> j \<and> j < m" using j by simp
        then obtain d where d: "j = y + 1 + d" using le_Suc_ex by blast
        have e1: "length (snd ?q) + (j - (y + 1)) = length (snd p) + (j - y)"
          unfolding d by (simp add: sq)
        have e2: "yoff + 0.1 + 0.1 * real (j - (y + 1)) = yoff + 0.1 * real (j - y)"
          unfolding d by (simp add: algebra_simps)
        from ih j' have "field (fst ?r) ! (x + j * n) = Some (length (snd ?q) + (j - (y + 1))) \<and>
          snd ?r ! (length (snd ?q) + (j - (y + 1)))
            = cell_vec h (fst ?q) time x xoff j (yoff + 0.1 + 0.1 * real (j - (y + 1)))"
          by blast
        then show ?thesis unfolding e1 e2 cv .
      qed
    qed
    show ?thesis unfolding step using l1 l2 l3 l4 l5 by blast
  qed
qed


lemma update_cols_spec:
  assumes "cols (fst p) = int n" "rows (fst p) = int m" "x \<le> n"
    "length (field (fst p)) = n * m"
  shows "length (field (fst (update_cols h time x xoff p))) = n * m \<and>
     cols (fst (update_cols h time x xoff p)) = int n \<and>
     rows (fst (update_cols h time x xoff p)) = int m \<and>
     resolution (fst (update_cols h time x xoff p)) = resolution (fst p) \<and>
     particleSpeed (fst (update_cols h time x xoff p)) = particleSpeed (fst p) \<and>
     length (snd (update_cols h time x xoff p)) = length (snd p) + (n - x) * m \<and>
     (\<forall>a < length (snd p). snd (update_cols h time x xoff p) ! a = snd p ! a) \<and>
     (\<forall>i j. x \<le> i \<and> i < n \<and> j < m \<longrightarrow>
        field (fst (update_cols h time x xoff p)) ! (i + j * n)
          = Some (length (snd p) + (i - x) * m + j) \<and>
        snd (update_cols h time x xoff p) ! (length (snd p) + (i - x) * m + j)
          = cell_vec h (fst p) time i (xoff + 0.1 * real (i - x)) j (0.1 * real j)) \<and>
     (\<forall>k < n * m. (\<forall>i j. x \<le> i \<and> i < n \<and> j < m \<longrightarrow> k \<noteq> i + j * n) \<longrightarrow>
        field (fst (update_cols h time x xoff p)) ! k = field (fst p) ! k)"
  using assms
proof (induction h time x xoff p rule: update_cols.induct)
  case (1 h time x xoff p)
  show ?case
  proof (cases "x < n")
    case False
    then have "x = n" using "1.prems" by simp
    then have "update_cols h time x xoff p = p"
      using "1.prems" by (subst update_cols.simps) simp
    then show ?thesis using \<open>x = n\<close> "1.prems" by auto
  next
    case True
    let ?q = "update_rows h time x xoff 0 0 p"
    let ?r = "update_cols h time (x + 1) (xoff + 0.1) ?q"
    have step: "update_cols h time x xoff p = ?r"
      using True "1.prems" by (subst update_cols.simps) simp
    have rs: "length (field (fst ?q)) = n * m \<and>
       length (snd ?q) = length (snd p) + (m - 0) \<and>
       (\<forall>a < length (snd p). snd ?q ! a = snd p ! a) \<and>
       (\<forall>j. 0 \<le> j \<and> j < m \<longrightarrow>
          field (fst ?q) ! (x + j * n) = Some (length (snd p) + (j - 0)) \<and>
          snd ?q ! (length (snd p) + (j - 0))
            = cell_vec h (fst p) time x xoff j (0 + 0.1 * real (j - 0))) \<and>
       (\<forall>i < n * m. (\<forall>j. 0 \<le> j \<and> j < m \<longrightarrow> i \<noteq> x + j * n) \<longrightarrow>
          field (fst ?q) ! i = field (fst p) ! i)"
      using "1.prems" True by (intro update_rows_spec) simp_all
    have dq: "cols (fst ?q) = int n" "rows (fst ?q) = int m"
      "resolution (fst ?q) = resolution (fst p)" "particleSpeed (fst ?q) = particleSpeed (fst p)"
      using "1.prems" by (simp_all add: update_rows_dims)
    have lq: "length (snd ?q) = length (snd p) + m" using rs by simp
    have cv: "cell_vec h (fst ?q) = cell_vec h (fst p)"
      by (intro ext) (simp add: cell_vec_def dq)
    have ih: "length (field (fst ?r)) = n * m \<and>
     cols (fst ?r) = int n \<and> rows (fst ?r) = int m \<and>
     resolution (fst ?r) = resolution (fst ?q) \<and>
     particleSpeed (fst ?r) = particleSpeed (fst ?q) \<and>
     length (snd ?r) = length (snd ?q) + (n - (x + 1)) * m \<and>
     (\<forall>a < length (snd ?q). snd ?r ! a = snd ?q ! a) \<and>
     (\<forall>i j. x + 1 \<le> i \<and> i < n \<and> j < m \<longrightarrow>
        field (fst ?r) ! (i + j * n) = Some (length (snd ?q) + (i - (x + 1)) * m + j) \<and>
        snd ?r ! (length (snd ?q) + (i - (x + 1)) * m + j)
          = cell_vec h (fst ?q) time i (xoff + 0.1 + 0.1 * real (i - (x + 1))) j (0.1 * real j)) \<and>
     (\<forall>k < n * m. (\<forall>i j. x + 1 \<le> i \<and> i < n \<and> j < m \<longrightarrow> k \<noteq> i + j * n) \<longrightarrow>
        field (fst ?r) ! k = field (fst ?q) ! k)"
      using True "1.prems" dq rs by (intro "1.IH") simp_all
    have l1: "length (field (fst ?r)) = n * m \<and> cols (fst ?r) = int n \<and> rows (fst ?r) = int m \<and>
       resolution (fst ?r) = resolution (fst p) \<and> particleSpeed (fst ?r) = particleSpeed (fst p)"
      using ih dq by simp
    have l2: "length (snd ?r) = length (snd p) + (n - x) * m"
    proof -
      have "n - x = Suc (n - (x + 1))" using True by arith
      then show ?thesis using ih lq by simp
    qed
    have l3: "\<forall>a < length (snd p). snd ?r ! a = snd p ! a"
      using ih rs lq by simp
    have sep: "i + j * n \<noteq> x + j' * n" if "x + 1 \<le> i" "i < n" for i j j'
    proof
      assume e: "i + j * n = x + j' * n"
      then have "(i + j * n) mod n = (x + j' * n) mod n" by simp
      then show False using that True by simp
    qed
    have inr: "x + j * n < n * m" if "j < m" for j
    proof -
      have "x + j * n < n + j * n" using True by simp
      also have "\<dots> = (j + 1) * n" by simp
      also have "\<dots> \<le> m * n" using that by (intro mult_le_mono1) simp
      finally show ?thesis by (simp add: mult.commute)
    qed
    have l5: "\<forall>k < n * m. (\<forall>i j. x \<le> i \<and> i < n \<and> j < m \<longrightarrow> k \<noteq> i + j * n) \<longrightarrow>
        field (fst ?r) ! k = field (fst p) ! k"
    proof (intro allI impI)
      fix k assume k: "k < n * m" and ne: "\<forall>i j. x \<le> i \<and> i < n \<and> j < m \<longrightarrow> k \<noteq> i + j * n"
      have "field (fst ?r) ! k = field (fst ?q) ! k" using ih k ne by simp
      also have "\<dots> = field (fst p) ! k" using rs k ne True by simp
      finally show "field (fst ?r) ! k = field (fst p) ! k" .
    qed
    have l4: "\<forall>i j. x \<le> i \<and> i < n \<and> j < m \<longrightarrow>
        field (fst ?r) ! (i + j * n) = Some (length (snd p) + (i - x) * m + j) \<and>
        snd ?r ! (length (snd p) + (i - x) * m + j)
          = cell_vec h (fst p) time i (xoff + 0.1 * real (i - x)) j (0.1 * real j)"
    proof (intro allI impI)
      fix i j assume ij: "x \<le> i \<and> i < n \<and> j < m"
      show "field (fst ?r) ! (i + j * n) = Some (length (snd p) + (i - x) * m + j) \<and>
        snd ?r ! (length (snd p) + (i - x) * m + j)
          = cell_vec h (fst p) time i (xoff + 0.1 * real (i - x)) j (0.1 * real j)"
      proof (cases "i = x")
        case True
        have ne: "\<forall>i' j'. x + 1 \<le> i' \<and> i' < n \<and> j' < m \<longrightarrow> x + j * n \<noteq> i' + j' * n"
          using sep by metis
        have "field (fst ?r) ! (x + j * n) = field (fst ?q) ! (x + j * n)"
          using ih inr[of j] ij ne by blast
        also have "\<dots> = Some (length (snd p) + j)" using rs ij by simp
        finally have a: "field (fst ?r) ! (x + j * n) = Some (length (snd p) + j)" .
        have "length (snd p) + j < length (snd ?q)" using lq ij by simp
        then have "snd ?r ! (length (snd p) + j) = snd ?q ! (length (snd p) + j)"
          using ih by blast
        also have "\<dots> = cell_vec h (fst p) time x xoff j (0.1 * real j)" using rs ij by simp
        finally have b: "snd ?r ! (length (snd p) + j) = cell_vec h (fst p) time x xoff j (0.1 * real j)" .
        from a b True show ?thesis by simp
      next
        case False
        then have i': "x + 1 \<le> i \<and> i < n \<and> j < m" using ij by simp
        then obtain d where d: "i = x + 1 + d" using le_Suc_ex by blast
        have e1: "length (snd ?q) + (i - (x + 1)) * m + j = length (snd p) + (i - x) * m + j"
          unfolding d by (simp add: lq)
        have e2: "xoff + 0.1 + 0.1 * real (i - (x + 1)) = xoff + 0.1 * real (i - x)"
          unfolding d by (simp add: algebra_simps)
        from ih i' have "field (fst ?r) ! (i + j * n) = Some (length (snd ?q) + (i - (x + 1)) * m + j) \<and>
          snd ?r ! (length (snd ?q) + (i - (x + 1)) * m + j)
            = cell_vec h (fst ?q) time i (xoff + 0.1 + 0.1 * real (i - (x + 1))) j (0.1 * real j)"
          by blast
        then show ?thesis unfolding e1 e2 cv .
      qed
    qed
    show ?thesis unfolding step using l1 l2 l3 l4 l5 by blast
  qed
qed


lemma mag_scaled_unit: "mag (vmult (fromAngle a) k) = \<bar>k\<bar>"
proof -
  have "(cos a * k)\<^sup>2 + (sin a * k)\<^sup>2 = ((cos a)\<^sup>2 + (sin a)\<^sup>2) * k\<^sup>2"
    by (simp only: power_mult_distrib distrib_right)
  also have "\<dots> = k\<^sup>2" by simp
  finally show ?thesis by (simp add: mag_def vmult_def fromAngle_def)
qed

lemma update_spec:
  assumes "ff_shape ff"
  shows "ff_shape (fst (update h ff hp time)) \<and>
     cols (fst (update h ff hp time)) = cols ff \<and>
     rows (fst (update h ff hp time)) = rows ff \<and>
     resolution (fst (update h ff hp time)) = resolution ff \<and>
     length (snd (update h ff hp time)) = length hp + nat (cols ff) * nat (rows ff) \<and>
     (\<forall>a < length hp. snd (update h ff hp time) ! a = hp ! a) \<and>
     (\<forall>i < nat (cols ff) * nat (rows ff).
        field (fst (update h ff hp time)) ! i
          = Some (length hp + (i mod nat (cols ff)) * nat (rows ff) + i div nat (cols ff)) \<and>
        snd (update h ff hp time) ! (length hp + (i mod nat (cols ff)) * nat (rows ff) + i div nat (cols ff))
          = cell_vec h ff time (i mod nat (cols ff)) (0.1 * real (i mod nat (cols ff)))
              (i div nat (cols ff)) (0.1 * real (i div nat (cols ff))))"
proof -
  let ?n = "nat (cols ff)" and ?m = "nat (rows ff)"
  let ?p = "update_cols h time 0 0 (ff, hp)"
  have c: "cols (fst (ff, hp)) = int ?n" "rows (fst (ff, hp)) = int ?m"
    "length (field (fst (ff, hp))) = ?n * ?m"
    using assms by (simp_all add: ff_shape_def)
  have z: "(0::nat) \<le> ?n" by simp
  note sp = update_cols_spec[OF c(1,2) z c(3), of h time 0]
  have cells: "\<forall>i j. i < ?n \<and> j < ?m \<longrightarrow>
        field (fst ?p) ! (i + j * ?n) = Some (length hp + i * ?m + j) \<and>
        snd ?p ! (length hp + i * ?m + j) = cell_vec h ff time i (0.1 * real i) j (0.1 * real j)"
    using sp by simp
  have all: "\<forall>i < ?n * ?m.
        field (fst ?p) ! i = Some (length hp + (i mod ?n) * ?m + i div ?n) \<and>
        snd ?p ! (length hp + (i mod ?n) * ?m + i div ?n)
          = cell_vec h ff time (i mod ?n) (0.1 * real (i mod ?n)) (i div ?n) (0.1 * real (i div ?n))"
  proof (intro allI impI)
    fix i assume i: "i < ?n * ?m"
    then have n0: "0 < ?n" by (cases "?n = 0") simp_all
    have a: "i mod ?n < ?n" using n0 by simp
    have b: "i div ?n < ?m" using i by (simp add: less_mult_imp_div_less mult.commute)
    have e: "i mod ?n + (i div ?n) * ?n = i" by simp
    from cells a b have "field (fst ?p) ! (i mod ?n + (i div ?n) * ?n)
          = Some (length hp + (i mod ?n) * ?m + i div ?n) \<and>
        snd ?p ! (length hp + (i mod ?n) * ?m + i div ?n)
          = cell_vec h ff time (i mod ?n) (0.1 * real (i mod ?n)) (i div ?n) (0.1 * real (i div ?n))"
      by blast
    then show "field (fst ?p) ! i = Some (length hp + (i mod ?n) * ?m + i div ?n) \<and>
        snd ?p ! (length hp + (i mod ?n) * ?m + i div ?n)
          = cell_vec h ff time (i mod ?n) (0.1 * real (i mod ?n)) (i div ?n) (0.1 * real (i div ?n))"
      unfolding e .
  qed
  have d: "cols (fst ?p) = cols ff" "rows (fst ?p) = rows ff"
    "resolution (fst ?p) = resolution ff" "particleSpeed (fst ?p) = particleSpeed ff"
    "length (field (fst ?p)) = ?n * ?m"
    using sp c by simp_all
  have len: "length (snd ?p) = length hp + ?n * ?m" using sp by simp
  have old: "\<forall>a < length hp. snd ?p ! a = hp ! a" using sp by simp
  have sh: "ff_shape (fst ?p)" using d assms by (simp add: ff_shape_def)
  show ?thesis
    unfolding update_def
  proof (intro conjI)
    show "ff_shape (fst ?p)" by (rule sh)
    show "cols (fst ?p) = cols ff" "rows (fst ?p) = rows ff" "resolution (fst ?p) = resolution ff"
      by (rule d)+
    show "length (snd ?p) = length hp + ?n * ?m" by (rule len)
    show "\<forall>a < length hp. snd ?p ! a = hp ! a" by (rule old)
    show "\<forall>i < ?n * ?m.
        field (fst ?p) ! i = Some (length hp + (i mod ?n) * ?m + i div ?n) \<and>
        snd ?p ! (length hp + (i mod ?n) * ?m + i div ?n)
          = cell_vec h ff time (i mod ?n) (0.1 * real (i mod ?n)) (i div ?n) (0.1 * real (i div ?n))"
      by (rule all)
  qed
qed

lemma kept_refl: "flow_kept s s"
  by (simp add: flow_kept_def)

lemma kept_emit: "flow_kept s (snd (emit h cs s))"
  by (simp add: emit_snd flow_kept_def)

lemma kept_and_then:
  "flow_kept s (snd r) \<Longrightarrow> (\<And>s1. flow_kept s1 (snd (f s1))) \<Longrightarrow>
   flow_kept s (snd (and_then r f))"
  by (auto simp: and_then_cases flow_kept_def)

lemma kept_noise: "flow_kept s (snd (addNoiseToFigure h s))"
  unfolding addNoiseToFigure_def
  by (rule kept_and_then) (simp_all add: kept_emit Let_def emit_snd flow_kept_def)

lemma kept_atmo: "flow_kept s (snd (call_addAtmosphericEffects h s))"
  unfolding call_atmo_eq addAtmosphericEffects_def
  by (intro kept_and_then kept_emit kept_noise)

lemma draw_updates_once:
  assumes "flowfield s = Some ff" "distortionField s = Some df"
  shows "flowfield (draw h fc s)
           = (if throws h (Background (BACKGROUND ! 0 + sin (real fc * 0.008) * 2)
                                      (BACKGROUND ! 1 + sin (real fc * 0.008 * 1.1) * 2)
                                      (BACKGROUND ! 2 + sin (real fc * 0.008 * 1.2) * 2))
              then Some ff else Some (fst (update h ff (vectors s) (real fc * 0.008)))) \<and>
         vectors (draw h fc s)
           = (if throws h (Background (BACKGROUND ! 0 + sin (real fc * 0.008) * 2)
                                      (BACKGROUND ! 1 + sin (real fc * 0.008 * 1.1) * 2)
                                      (BACKGROUND ! 2 + sin (real fc * 0.008 * 1.2) * 2))
              then vectors s else snd (update h ff (vectors s) (real fc * 0.008)))"
proof -
  let ?bg = "Background (BACKGROUND ! 0 + sin (real fc * 0.008) * 2)
                                      (BACKGROUND ! 1 + sin (real fc * 0.008 * 1.1) * 2)
                                      (BACKGROUND ! 2 + sin (real fc * 0.008 * 1.2) * 2)"
  let ?s2 = "s\<lparr>globalTime := real fc * 0.008,
              emotionalIntensity := map_p5 (sin (real fc * 0.008 * 0.3)) (- 1) 1 0.5 1\<rparr>"
  let ?fig = "\<lambda>s. emit h ([Translate (width s / 2) (height s / 2)]
                                 @ drawShadowLayer df s @ drawMainFigure df s) s"
  let ?upd = "\<lambda>s. let p = update h ff (vectors s) (globalTime s)
                          in (None :: error option, s\<lparr>flowfield := Some (fst p), vectors := snd p\<rparr>)"
  have l: "draw_try h fc s =
      and_then (and_then (and_then (emit h [?bg] ?s2) ?upd) ?fig) (call_addAtmosphericEffects h)"
    unfolding draw_try_def Let_def using assms by (simp del: emit.simps append.simps)
  have dr1: "flowfield (draw h fc s) = flowfield (snd (draw_try h fc s))"
    by (cases "draw_try h fc s"; cases "fst (draw_try h fc s)") (simp_all add: draw_def)
  have dr2: "vectors (draw h fc s) = vectors (snd (draw_try h fc s))"
    by (cases "draw_try h fc s"; cases "fst (draw_try h fc s)") (simp_all add: draw_def)
  note dr = dr1 dr2
  show ?thesis
  proof (cases "throws h ?bg")
    case True
    then have "draw_try h fc s = (Some (Thrown ?bg), ?s2)" unfolding l by simp
    then show ?thesis using True assms dr by simp
  next
    case False
    let ?s4 = "?s2\<lparr>canvas := canvas ?s2 @ [?bg],
                   flowfield := Some (fst (update h ff (vectors s) (real fc * 0.008))),
                   vectors := snd (update h ff (vectors s) (real fc * 0.008))\<rparr>"
    have "draw_try h fc s = and_then (?fig ?s4) (call_addAtmosphericEffects h)"
      unfolding l using False by (simp add: Let_def del: append.simps)
    moreover have "flow_kept ?s4 (snd (and_then (?fig ?s4) (call_addAtmosphericEffects h)))"
      by (intro kept_and_then kept_emit kept_atmo)
    ultimately show ?thesis using False dr by (simp add: flow_kept_def)
  qed
qed


lemma draw_flowfield:
  assumes "flowfield s = Some ff" "distortionField s = Some df" "ff_shape ff"
  shows "\<exists>ff'. flowfield (draw h fc s) = Some ff' \<and> ff_shape ff' \<and> cols ff' = cols ff \<and>
           rows ff' = rows ff \<and> resolution ff' = resolution ff"
proof -
  let ?u = "update h ff (vectors s) (real fc * 0.008)"
  have "flowfield (draw h fc s) = Some ff \<or> flowfield (draw h fc s) = Some (fst ?u)"
    using draw_updates_once[OF assms(1,2), of h fc] by (simp split: if_splits)
  moreover have "ff_shape (fst ?u) \<and> cols (fst ?u) = cols ff \<and> rows (fst ?u) = rows ff \<and>
      resolution (fst ?u) = resolution ff"
    using update_spec[OF assms(3), of h "vectors s" "real fc * 0.008"] by simp
  ultimately show ?thesis using assms(3) by auto
qed

lemma run_flowfield:
  "\<exists>ff. flowfield (run h evs s) = Some ff \<and> ff_shape ff \<and> cols ff = 30 \<and> rows ff = 40 \<and>
        resolution ff = 20"
proof (induction evs rule: rev_induct)
  case Nil
  show ?case using setup_props[of h s] by (simp add: run_def ff_shape_def)
next
  case (snoc e evs)
  then obtain ff where ff: "flowfield (run h evs s) = Some ff" "ff_shape ff" "cols ff = 30"
    "rows ff = 40" "resolution ff = 20" by blast
  from run_ready[of h evs s] obtain df where df: "distortionField (run h evs s) = Some df"
    by (auto simp: ready_def)
  show ?case
  proof (cases e)
    case (Draw fc)
    then show ?thesis
      using draw_flowfield[OF ff(1) df ff(2), of h fc] ff by (simp add: run_snoc)
  next
    case (MouseMoved a b c d)
    then show ?thesis using ff by (simp add: run_snoc mouseMoved_keeps)
  next
    case (WindowResized a b fc)
    let ?r = "(run h evs s)\<lparr>width := min (a * 0.8) 600, height := min (b * 0.8) 800,
        canvas := canvas (run h evs s) @ [ResizeCanvas (min (a * 0.8) 600) (min (b * 0.8) 800)]\<rparr>"
    have "flowfield ?r = Some ff" "distortionField ?r = Some df" using ff(1) df by simp_all
    from draw_flowfield[OF this ff(2), of h fc] WindowResized ff show ?thesis
      by (simp add: run_snoc windowResized_draw)
  qed
qed

lemma cell_address:
  fixes i n m :: nat
  assumes "i < n * m"
  shows "(i mod n) * m + i div n < n * m"
proof -
  from assms have n0: "0 < n" by (cases "n = 0") simp_all
  have "i mod n < n" using n0 by simp
  then have a: "i mod n + 1 \<le> n" by simp
  have b: "i div n < m" using assms by (simp add: less_mult_imp_div_less mult.commute)
  have "(i mod n) * m + i div n < (i mod n) * m + m" using b by simp
  also have "\<dots> = (i mod n + 1) * m" by simp
  also have "\<dots> \<le> n * m" using a by (intro mult_le_mono1)
  finally show ?thesis .
qed

lemma constrain_floor:
  assumes "1 \<le> c"
  shows "0 \<le> \<lfloor>constrain v 0 (of_int (c - 1))\<rfloor> \<and> \<lfloor>constrain v 0 (of_int (c - 1))\<rfloor> \<le> c - 1"
proof -
  have "(0::real) \<le> of_int (c - 1)" using assms by simp
  from constrain_bounds[OF this, of v]
  have b: "0 \<le> constrain v 0 (of_int (c - 1))" "constrain v 0 (of_int (c - 1)) \<le> of_int (c - 1)"
    by simp_all
  from b(1) have "0 \<le> \<lfloor>constrain v 0 (of_int (c - 1))\<rfloor>" by simp
  moreover from b(2) have "\<lfloor>constrain v 0 (of_int (c - 1))\<rfloor> \<le> c - 1"
    using floor_mono[OF b(2)] by simp
  ultimately show ?thesis by simp
qed

lemma force_index_bounds:
  assumes "1 \<le> cols ff" "1 \<le> rows ff"
  shows "0 \<le> force_index ff x y \<and> force_index ff x y < cols ff * rows ff"
proof -
  let ?c = "\<lfloor>constrain (x / resolution ff) 0 (of_int (cols ff - 1))\<rfloor>"
  let ?r = "\<lfloor>constrain (y / resolution ff) 0 (of_int (rows ff - 1))\<rfloor>"
  from constrain_floor[OF assms(1), of "x / resolution ff"]
  have c: "0 \<le> ?c" "?c \<le> cols ff - 1" by simp_all
  from constrain_floor[OF assms(2), of "y / resolution ff"]
  have r: "0 \<le> ?r" "?r \<le> rows ff - 1" by simp_all
  have "?r * cols ff \<le> (rows ff - 1) * cols ff"
    using r(2) assms(1) by (intro mult_right_mono) simp_all
  then have "?c + ?r * cols ff \<le> (cols ff - 1) + (rows ff - 1) * cols ff"
    using c(2) by simp
  also have "\<dots> = cols ff * rows ff - 1" by (simp add: algebra_simps)
  finally have u: "?c + ?r * cols ff < cols ff * rows ff" by simp
  have "0 \<le> ?r * cols ff" using r(1) assms(1) by simp
  then have l: "0 \<le> ?c + ?r * cols ff" using c(1) by simp
  show ?thesis unfolding force_index_def using l u by simp
qed

lemma getForce_spec:
  assumes "refs_ok ff hp"
  shows "fst (getForce ff hp x y intensity) = length (snd (getForce ff hp x y intensity)) - 1 \<and>
     length hp \<le> fst (getForce ff hp x y intensity) \<and>
     fst (getForce ff hp x y intensity) < length (snd (getForce ff hp x y intensity)) \<and>
     (\<forall>a < length hp. snd (getForce ff hp x y intensity) ! a = hp ! a) \<and>
     snd (getForce ff hp x y intensity) ! fst (getForce ff hp x y intensity)
       = vmult (case js_read (field ff) (force_index ff x y) of
                  Some a \<Rightarrow> hp ! a
                | None \<Rightarrow> createVector 0 0) intensity"
proof (cases "js_read (field ff) (force_index ff x y)")
  case None
  then have g: "getForce ff hp x y intensity
      = (length hp + 1, hp @ [createVector 0 0, vmult (createVector 0 0) intensity])"
    by (simp add: getForce_def force_index_def Let_def valloc_def vmult_at_def nth_append)
  show ?thesis unfolding g using None by (simp add: nth_append)
next
  case (Some a)
  then have "force_index ff x y \<ge> 0" "nat (force_index ff x y) < length (field ff)"
    "field ff ! nat (force_index ff x y) = Some a"
    by (simp_all add: js_read_def split: if_splits)
  then have a: "a < length hp"
    using assms by (auto simp: refs_ok_def list_all_length split: option.splits)
  from Some have g: "getForce ff hp x y intensity
      = (length hp, hp @ [vmult (hp ! a) intensity])"
    using a by (simp add: getForce_def force_index_def Let_def valloc_def vmult_at_def nth_append)
  show ?thesis unfolding g using Some by (simp add: nth_append)
qed

lemma refs_ok_update:
  assumes "ff_shape ff"
  shows "refs_ok (fst (update h ff hp time)) (snd (update h ff hp time))"
proof -
  let ?n = "nat (cols ff)" and ?m = "nat (rows ff)"
  note sp = update_spec[OF assms, of h hp time]
  have len: "length (field (fst (update h ff hp time))) = ?n * ?m"
    using sp by (simp add: ff_shape_def)
  have "\<forall>i < ?n * ?m. case field (fst (update h ff hp time)) ! i of None \<Rightarrow> True
      | Some a \<Rightarrow> a < length (snd (update h ff hp time))"
  proof (intro allI impI)
    fix i assume i: "i < ?n * ?m"
    then have "field (fst (update h ff hp time)) ! i
        = Some (length hp + (i mod ?n) * ?m + i div ?n)" using sp by simp
    moreover have "length hp + (i mod ?n) * ?m + i div ?n < length (snd (update h ff hp time))"
      using cell_address[OF i] sp by simp
    ultimately show "case field (fst (update h ff hp time)) ! i of None \<Rightarrow> True
      | Some a \<Rightarrow> a < length (snd (update h ff hp time))" by simp
  qed
  then show ?thesis unfolding refs_ok_def list_all_length len by simp
qed

lemma draw_refs_ok:
  assumes "flowfield s = Some ff" "distortionField s = Some df" "ff_shape ff"
    "refs_ok ff (vectors s)"
  shows "\<exists>ff'. flowfield (draw h fc s) = Some ff' \<and> refs_ok ff' (vectors (draw h fc s))"
  using draw_updates_once[OF assms(1,2), of h fc] assms(4)
    refs_ok_update[OF assms(3), of h "vectors s" "real fc * 0.008"]
  by (auto split: if_splits)

lemma run_refs_ok:
  "\<exists>ff. flowfield (run h evs s) = Some ff \<and> refs_ok ff (vectors (run h evs s))"
proof (induction evs rule: rev_induct)
  case Nil
  show ?case using setup_props[of h s] by (simp add: run_def refs_ok_def list_all_length)
next
  case (snoc e evs)
  then obtain ff where ff: "flowfield (run h evs s) = Some ff" "refs_ok ff (vectors (run h evs s))"
    by blast
  from run_flowfield[of h evs s] ff(1) have sh: "ff_shape ff" by simp
  from run_ready[of h evs s] obtain df where df: "distortionField (run h evs s) = Some df"
    by (auto simp: ready_def)
  show ?case
  proof (cases e)
    case (Draw fc)
    then show ?thesis
      using draw_refs_ok[OF ff(1) df sh ff(2), of h fc] by (simp add: run_snoc)
  next
    case (MouseMoved a b c d)
    then show ?thesis using ff by (simp add: run_snoc mouseMoved_def Let_def)
  next
    case (WindowResized a b fc)
    let ?r = "(run h evs s)\<lparr>width := min (a * 0.8) 600, height := min (b * 0.8) 800,
        canvas := canvas (run h evs s) @ [ResizeCanvas (min (a * 0.8) 600) (min (b * 0.8) 800)]\<rparr>"
    have "flowfield ?r = Some ff" "distortionField ?r = Some df" "refs_ok ff (vectors ?r)"
      using ff df by simp_all
    from draw_refs_ok[OF this(1,2) sh this(3), of h fc] WindowResized show ?thesis
      by (simp add: run_snoc windowResized_draw)
  qed
qed

subsection \<open>The noise pass\<close>

lemma px_index_nat: "px_index ps (real i) = (i < length ps)"
  by (simp add: px_index_def)

lemma px_read_nat: "px_read ps (real i) = (if i < length ps then Some (ps ! i) else None)"
  by (simp add: px_read_def px_index_nat)

lemma px_write_nat: "px_write ps (real i) v = (if i < length ps then ps[i := u8clamp v] else ps)"
  by (simp add: px_write_def px_index_nat)

lemma real_succ: "real i + 1 = real (i + 1)" "real i + 2 = real (i + 2)"
  by simp_all

lemma noise_px_nat:
  "noise_px h e (real i) (ps, k) =
     (if i + 2 < length ps \<and> brightness ps i < 180
      then (ps[i := u8clamp (constrain (real (ps ! i) + random2 (rnd h k) (- 6) 6 * e) 0 255),
               i + 1 := u8clamp (constrain (real (ps ! (i + 1)) + random2 (rnd h k) (- 6) 6 * e) 0 255),
               i + 2 := u8clamp (constrain (real (ps ! (i + 2)) + random2 (rnd h k) (- 6) 6 * e) 0 255)],
            k + 1)
      else (ps, k))"
  unfolding noise_px_def real_succ px_read_nat px_write_nat
  by (simp add: Let_def brightness_def)


lemma swept_refl: "swept h e ps lo lo (ps, k)"
  by (auto simp: swept_def)

lemma swept_pixel: "swept h e ps q (q + 1) (noise_px h e (real (4 * q)) (ps, k))"
proof -
  have one: "\<And>q'. q \<le> q' \<and> q' < q + 1 \<Longrightarrow> q' = q" by simp
  show ?thesis
  proof (cases "4 * q + 2 < length ps \<and> brightness ps (4 * q) < 180")
    case False
    then have eq: "noise_px h e (real (4 * q)) (ps, k) = (ps, k)"
      unfolding noise_px_nat by simp
    have "pixel_post h e ps ps q"
      using False by (auto simp: pixel_post_def colour_kept_def alpha_kept_def)
    then have "\<forall>q'. q \<le> q' \<and> q' < q + 1 \<longrightarrow> pixel_post h e ps ps q'"
      using one by metis
    then show ?thesis unfolding eq swept_def by simp
  next
    case True
    let ?a = "random2 (rnd h k) (- 6) 6 * e"
    let ?i = "4 * q"
    let ?ps' = "ps[?i := u8clamp (constrain (real (ps ! ?i) + ?a) 0 255),
                 ?i + 1 := u8clamp (constrain (real (ps ! (?i + 1)) + ?a) 0 255),
                 ?i + 2 := u8clamp (constrain (real (ps ! (?i + 2)) + ?a) 0 255)]"
    have eq: "noise_px h e (real ?i) (ps, k) = (?ps', k + 1)"
      unfolding noise_px_nat using True by simp
    have n: "noised h e ps ?ps' ?i"
      unfolding noised_def using True by (intro exI[of _ k]) simp
    have a: "alpha_kept ps ?ps' ?i" by (simp add: alpha_kept_def)
    have o: "\<forall>i < length ps. i < 4 * q \<or> 4 * (q + 1) \<le> i \<longrightarrow> ?ps' ! i = ps ! i"
      by auto
    have "pixel_post h e ps ?ps' q" using True n a by (simp add: pixel_post_def)
    then have "\<forall>q'. q \<le> q' \<and> q' < q + 1 \<longrightarrow> pixel_post h e ps ?ps' q'"
      using one by metis
    then show ?thesis unfolding eq swept_def using o by simp
  qed
qed

lemma post_right:
  assumes "pixel_post h e ps ps1 q"
    "\<forall>i < length ps. 4 * q \<le> i \<and> i < 4 * q + 4 \<longrightarrow> ps2 ! i = ps1 ! i"
  shows "pixel_post h e ps ps2 q"
proof -
  have b: "4 * q < length ps \<Longrightarrow> ps2 ! (4 * q) = ps1 ! (4 * q)"
    "4 * q + 1 < length ps \<Longrightarrow> ps2 ! (4 * q + 1) = ps1 ! (4 * q + 1)"
    "4 * q + 2 < length ps \<Longrightarrow> ps2 ! (4 * q + 2) = ps1 ! (4 * q + 2)"
    "4 * q + 3 < length ps \<Longrightarrow> ps2 ! (4 * q + 3) = ps1 ! (4 * q + 3)"
    using assms(2) by simp_all
  have k: "colour_kept ps ps1 (4 * q) \<Longrightarrow> colour_kept ps ps2 (4 * q)"
    using b by (simp add: colour_kept_def)
  have a: "alpha_kept ps ps1 (4 * q) \<Longrightarrow> alpha_kept ps ps2 (4 * q)"
    using b by (simp add: alpha_kept_def)
  have n: "4 * q + 2 < length ps \<Longrightarrow> noised h e ps ps1 (4 * q) \<Longrightarrow> noised h e ps ps2 (4 * q)"
    using b by (simp add: noised_def)
  show ?thesis using assms(1) k a n by (auto simp: pixel_post_def split: if_splits)
qed

lemma post_left:
  assumes "pixel_post h e ps1 ps2 q" "length ps1 = length ps"
    "\<forall>i < length ps. 4 * q \<le> i \<and> i < 4 * q + 4 \<longrightarrow> ps1 ! i = ps ! i"
  shows "pixel_post h e ps ps2 q"
proof -
  have b: "4 * q < length ps \<Longrightarrow> ps1 ! (4 * q) = ps ! (4 * q)"
    "4 * q + 1 < length ps \<Longrightarrow> ps1 ! (4 * q + 1) = ps ! (4 * q + 1)"
    "4 * q + 2 < length ps \<Longrightarrow> ps1 ! (4 * q + 2) = ps ! (4 * q + 2)"
    "4 * q + 3 < length ps \<Longrightarrow> ps1 ! (4 * q + 3) = ps ! (4 * q + 3)"
    using assms(3) by simp_all
  have k: "colour_kept ps1 ps2 (4 * q) \<Longrightarrow> colour_kept ps ps2 (4 * q)"
    using b assms(2) by (simp add: colour_kept_def)
  have a: "alpha_kept ps1 ps2 (4 * q) \<Longrightarrow> alpha_kept ps ps2 (4 * q)"
    using b assms(2) by (simp add: alpha_kept_def)
  have n: "4 * q + 2 < length ps \<Longrightarrow> noised h e ps1 ps2 (4 * q) \<Longrightarrow> noised h e ps ps2 (4 * q)"
    using b by (simp add: noised_def)
  have br: "4 * q + 2 < length ps \<Longrightarrow> brightness ps1 (4 * q) = brightness ps (4 * q)"
    using b by (simp add: brightness_def)
  show ?thesis using assms(1,2) k a n br by (auto simp: pixel_post_def split: if_splits)
qed

lemma swept_trans:
  assumes "swept h e ps lo mid p1" "swept h e (fst p1) mid hi p2" "lo \<le> mid" "mid \<le> hi"
  shows "swept h e ps lo hi p2"
proof -
  have l1: "length (fst p1) = length ps" and l2: "length (fst p2) = length ps"
    using assms(1,2) by (simp_all add: swept_def)
  have o1: "\<forall>i < length ps. i < 4 * lo \<or> 4 * mid \<le> i \<longrightarrow> fst p1 ! i = ps ! i"
    using assms(1) by (simp add: swept_def)
  have o2: "\<forall>i < length ps. i < 4 * mid \<or> 4 * hi \<le> i \<longrightarrow> fst p2 ! i = fst p1 ! i"
    using assms(2) l1 by (simp add: swept_def)
  have out: "\<forall>i < length ps. i < 4 * lo \<or> 4 * hi \<le> i \<longrightarrow> fst p2 ! i = ps ! i"
  proof (intro allI impI)
    fix i assume i: "i < length ps" "i < 4 * lo \<or> 4 * hi \<le> i"
    then have "i < 4 * mid \<or> 4 * hi \<le> i" "i < 4 * lo \<or> 4 * mid \<le> i"
      using assms(3,4) by auto
    then show "fst p2 ! i = ps ! i" using o1 o2 i(1) by metis
  qed
  have post: "\<forall>q. lo \<le> q \<and> q < hi \<longrightarrow> pixel_post h e ps (fst p2) q"
  proof (intro allI impI)
    fix q assume q: "lo \<le> q \<and> q < hi"
    show "pixel_post h e ps (fst p2) q"
    proof (cases "q < mid")
      case True
      then have p: "pixel_post h e ps (fst p1) q" using assms(1) q by (simp add: swept_def)
      have "\<forall>i < length ps. 4 * q \<le> i \<and> i < 4 * q + 4 \<longrightarrow> fst p2 ! i = fst p1 ! i"
        using o2 True by auto
      with p show ?thesis by (rule post_right)
    next
      case False
      then have p: "pixel_post h e (fst p1) (fst p2) q" using assms(2) q by (simp add: swept_def)
      have "\<forall>i < length ps. 4 * q \<le> i \<and> i < 4 * q + 4 \<longrightarrow> fst p1 ! i = ps ! i"
        using o1 False by auto
      with p l1 show ?thesis by (rule post_left)
    qed
  qed
  show ?thesis unfolding swept_def using l2 out post by simp
qed


lemma swept_cols:
  assumes "width s = real w" "x \<le> w"
  shows "swept h (emotionalIntensity s) (fst p) (x + y * w) (w + y * w) (noise_cols h s y x p)"
  using assms
proof (induction h s y x p rule: noise_cols.induct)
  case (1 h s y x p)
  show ?case
  proof (cases "x < w")
    case False
    then have "x = w" using "1.prems" by simp
    then have "noise_cols h s y x p = p"
      using "1.prems" by (subst noise_cols.simps) simp
    then show ?thesis using \<open>x = w\<close> swept_refl[of h _ "fst p" _ "snd p"] by simp
  next
    case True
    let ?e = "emotionalIntensity s"
    let ?q = "x + y * w"
    let ?p1 = "noise_px h ?e (real (4 * ?q)) (fst p, snd p)"
    have idx: "(real x + real y * width s) * 4 = real (4 * ?q)"
      using "1.prems" by simp
    have "noise_cols h s y x p
        = noise_cols h s y (x + 1) (noise_px h ?e ((real x + real y * width s) * 4) p)"
      using True "1.prems" by (subst noise_cols.simps) simp
    then have step: "noise_cols h s y x p = noise_cols h s y (x + 1) ?p1"
      unfolding idx by simp
    have a: "swept h ?e (fst p) ?q (?q + 1) ?p1" by (rule swept_pixel)
    let ?p0 = "noise_px h ?e ((real x + real y * width s) * 4) p"
    have p0: "?p0 = ?p1" unfolding idx by simp
    have "swept h ?e (fst ?p0) (x + 1 + y * w) (w + y * w) (noise_cols h s y (x + 1) ?p0)"
      using True "1.prems" by (intro "1.IH") simp_all
    then have b: "swept h ?e (fst ?p1) (?q + 1) (w + y * w) (noise_cols h s y (x + 1) ?p1)"
      unfolding p0 by (simp add: add.commute add.left_commute)
    show ?thesis unfolding step using a b
      by (rule swept_trans) (use True in simp_all)
  qed
qed

lemma swept_rows:
  assumes "width s = real w" "height s = real hh" "y \<le> hh"
  shows "swept h (emotionalIntensity s) (fst p) (y * w) (hh * w) (noise_rows h s y p)"
  using assms
proof (induction h s y p rule: noise_rows.induct)
  case (1 h s y p)
  show ?case
  proof (cases "y < hh")
    case False
    then have "y = hh" using "1.prems" by simp
    then have "noise_rows h s y p = p"
      using "1.prems" by (subst noise_rows.simps) simp
    then show ?thesis using \<open>y = hh\<close> swept_refl[of h _ "fst p" _ "snd p"] by simp
  next
    case True
    let ?e = "emotionalIntensity s"
    let ?p1 = "noise_cols h s y 0 p"
    have step: "noise_rows h s y p = noise_rows h s (y + 1) ?p1"
      using True "1.prems" by (subst noise_rows.simps) simp
    have a: "swept h ?e (fst p) (y * w) (w + y * w) ?p1"
      using swept_cols[OF "1.prems"(1), of 0 h p y] by simp
    have "swept h ?e (fst ?p1) ((y + 1) * w) (hh * w) (noise_rows h s (y + 1) ?p1)"
      using True "1.prems" by (intro "1.IH") simp_all
    then have b: "swept h ?e (fst ?p1) (w + y * w) (hh * w) (noise_rows h s (y + 1) ?p1)"
      by simp
    have le: "w + y * w \<le> hh * w"
    proof -
      have "(y + 1) * w \<le> hh * w" using True by (intro mult_le_mono1) simp
      then show ?thesis by simp
    qed
    show ?thesis unfolding step using a b
      by (rule swept_trans) (use le in simp_all)
  qed
qed

lemma u8clamp_le: "u8clamp v \<le> 255"
proof (cases "v \<le> 0 \<or> v \<ge> 255")
  case True
  then show ?thesis by (auto simp: u8clamp_def)
next
  case False
  then have "\<lfloor>v\<rfloor> < 255" by (simp add: floor_less_iff)
  moreover have "round_half_even v \<le> \<lfloor>v\<rfloor> + 1"
    by (simp add: round_half_even_def Let_def)
  ultimately have "round_half_even v \<le> 255" by linarith
  then show ?thesis using False by (simp add: u8clamp_def)
qed

lemma addNoise_pixels:
  assumes "\<not> throws h LoadPixels"
  shows "pixels (snd (addNoiseToFigure h s))
           = fst (noise_rows h s 0 (raster h (canvas s @ [LoadPixels]), drawn s))"
proof -
  let ?s1 = "s\<lparr>canvas := canvas s @ [LoadPixels], pixels := raster h (canvas s @ [LoadPixels])\<rparr>"
  have si: "same_inputs ?s1 s" by (simp add: same_inputs_def)
  have n: "\<And>p. noise_rows h ?s1 0 p = noise_rows h s 0 p"
    using noise_rows_reads[OF si, of h h 0] by simp
  show ?thesis
    unfolding addNoiseToFigure_def using assms
    by (simp add: Let_def emit_snd n)
qed

lemma noise_px_effect:
  "noise_px h e index p = p \<or>
   (\<exists>i. index = real i \<and> i + 2 < length (fst p) \<and> brightness (fst p) i < 180 \<and>
        noise_px h e index p =
          ((fst p)[i := u8clamp (constrain (real (fst p ! i) + random2 (rnd h (snd p)) (- 6) 6 * e) 0 255),
                   i + 1 := u8clamp (constrain (real (fst p ! (i + 1)) + random2 (rnd h (snd p)) (- 6) 6 * e) 0 255),
                   i + 2 := u8clamp (constrain (real (fst p ! (i + 2)) + random2 (rnd h (snd p)) (- 6) 6 * e) 0 255)],
           snd p + 1))"
proof (cases "px_index (fst p) index")
  case False
  then have "noise_px h e index p = p"
    by (simp add: noise_px_def px_read_def Let_def)
  then show ?thesis by simp
next
  case True
  define i where "i = nat \<lfloor>index\<rfloor>"
  from True have a: "0 \<le> index" "real_of_int \<lfloor>index\<rfloor> = index"
    unfolding px_index_def by blast+
  from a(1) have "0 \<le> \<lfloor>index\<rfloor>" by simp
  then have "real (nat \<lfloor>index\<rfloor>) = real_of_int \<lfloor>index\<rfloor>" by (rule of_nat_nat)
  then have idx: "index = real i" unfolding i_def a(2) by simp
  have np: "noise_px h e index p = noise_px h e (real i) (fst p, snd p)"
    using idx by simp
  show ?thesis
  proof (cases "i + 2 < length (fst p) \<and> brightness (fst p) i < 180")
    case False
    then have "noise_px h e index p = p"
      unfolding np noise_px_nat by auto
    then show ?thesis by simp
  next
    case True
    then have "noise_px h e index p =
          ((fst p)[i := u8clamp (constrain (real (fst p ! i) + random2 (rnd h (snd p)) (- 6) 6 * e) 0 255),
                   i + 1 := u8clamp (constrain (real (fst p ! (i + 1)) + random2 (rnd h (snd p)) (- 6) 6 * e) 0 255),
                   i + 2 := u8clamp (constrain (real (fst p ! (i + 2)) + random2 (rnd h (snd p)) (- 6) 6 * e) 0 255)],
           snd p + 1)"
      unfolding np noise_px_nat by simp
    with True idx show ?thesis by blast
  qed
qed

subsection \<open>The noise pass on a canvas of whole-number size\<close>

text \<open>
  On a canvas of \<open>w\<close> by \<open>hh\<close> pixels, the pass of \<open>addNoiseToFigure\<close> over the
  array \<open>pixels\<close> keeps the length of the array and, for every pixel of the canvas that
  lies in the array: if the average of its red, green and blue channels is 180 or more, the
  three channels are as they were; if it is below 180, there is one draw of \<open>random\<close>
  such that each of the three channels is the old channel plus the same amount
  \<open>random(-6, 6) * emotionalIntensity\<close>, constrained to 0..255 and stored in the
  array.  Every value \<open>constrain\<close> gives lies in 0..255, and so does the number stored.
  The alpha channels, and the elements past the last pixel, are as they were.  When
  \<open>loadPixels()\<close> does not throw, the array \<open>addNoiseToFigure\<close> leaves is the
  result of this pass over what the canvas holds.  On a canvas of any size, one run of the
  loop body either leaves the array and the generator as they are, or finds a brightness
  below 180 at a whole index and overwrites the three channels there in the way just said.
\<close>

lemma noise_on_whole_canvas:
  assumes "width s = real w" "height s = real hh"
  shows "length (fst (noise_rows h s 0 (ps, k))) = length ps \<and>
    (\<forall>x y. x < w \<and> y < hh \<and> 4 * (x + y * w) + 2 < length ps \<longrightarrow>
       (180 \<le> brightness ps (4 * (x + y * w)) \<longrightarrow>
          fst (noise_rows h s 0 (ps, k)) ! (4 * (x + y * w)) = ps ! (4 * (x + y * w)) \<and>
          fst (noise_rows h s 0 (ps, k)) ! (4 * (x + y * w) + 1) = ps ! (4 * (x + y * w) + 1) \<and>
          fst (noise_rows h s 0 (ps, k)) ! (4 * (x + y * w) + 2) = ps ! (4 * (x + y * w) + 2)) \<and>
       (brightness ps (4 * (x + y * w)) < 180 \<longrightarrow>
          (\<exists>j. fst (noise_rows h s 0 (ps, k)) ! (4 * (x + y * w))
                 = u8clamp (constrain (real (ps ! (4 * (x + y * w)))
                     + random2 (rnd h j) (- 6) 6 * emotionalIntensity s) 0 255) \<and>
               fst (noise_rows h s 0 (ps, k)) ! (4 * (x + y * w) + 1)
                 = u8clamp (constrain (real (ps ! (4 * (x + y * w) + 1))
                     + random2 (rnd h j) (- 6) 6 * emotionalIntensity s) 0 255) \<and>
               fst (noise_rows h s 0 (ps, k)) ! (4 * (x + y * w) + 2)
                 = u8clamp (constrain (real (ps ! (4 * (x + y * w) + 2))
                     + random2 (rnd h j) (- 6) 6 * emotionalIntensity s) 0 255)))) \<and>
    (\<forall>v. 0 \<le> constrain v 0 255 \<and> constrain v 0 255 \<le> 255 \<and> u8clamp (constrain v 0 255) \<le> 255) \<and>
    (\<forall>i < length ps. i mod 4 = 3 \<or> 4 * (hh * w) \<le> i \<longrightarrow>
       fst (noise_rows h s 0 (ps, k)) ! i = ps ! i) \<and>
    (\<not> throws h LoadPixels \<longrightarrow>
       pixels (snd (addNoiseToFigure h s))
         = fst (noise_rows h s 0 (raster h (canvas s @ [LoadPixels]), drawn s))) \<and>
    (\<forall>e index p. noise_px h e index p = p \<or>
       (\<exists>i. index = real i \<and> i + 2 < length (fst p) \<and> brightness (fst p) i < 180 \<and>
          noise_px h e index p =
            ((fst p)[i := u8clamp (constrain (real (fst p ! i)
                         + random2 (rnd h (snd p)) (- 6) 6 * e) 0 255),
                     i + 1 := u8clamp (constrain (real (fst p ! (i + 1))
                         + random2 (rnd h (snd p)) (- 6) 6 * e) 0 255),
                     i + 2 := u8clamp (constrain (real (fst p ! (i + 2))
                         + random2 (rnd h (snd p)) (- 6) 6 * e) 0 255)],
             snd p + 1)))"
proof -
  let ?p' = "noise_rows h s 0 (ps, k)"
  let ?e = "emotionalIntensity s"
  have sw: "swept h ?e ps 0 (hh * w) ?p'"
    using swept_rows[OF assms, of 0 h "(ps, k)"] by simp
  have len: "length (fst ?p') = length ps" using sw by (simp add: swept_def)
  have out: "\<forall>i < length ps. 4 * (hh * w) \<le> i \<longrightarrow> fst ?p' ! i = ps ! i"
    using sw by (simp add: swept_def)
  have post: "\<And>q. q < hh * w \<Longrightarrow> pixel_post h ?e ps (fst ?p') q"
    using sw by (simp add: swept_def)
  have inr: "x + y * w < hh * w" if "x < w" "y < hh" for x y
  proof -
    have "x + y * w < w + y * w" using that by simp
    also have "\<dots> = (y + 1) * w" by simp
    also have "\<dots> \<le> hh * w" using that by (intro mult_le_mono1) simp
    finally show ?thesis .
  qed
  have px: "\<forall>x y. x < w \<and> y < hh \<and> 4 * (x + y * w) + 2 < length ps \<longrightarrow>
       (180 \<le> brightness ps (4 * (x + y * w)) \<longrightarrow>
          fst ?p' ! (4 * (x + y * w)) = ps ! (4 * (x + y * w)) \<and>
          fst ?p' ! (4 * (x + y * w) + 1) = ps ! (4 * (x + y * w) + 1) \<and>
          fst ?p' ! (4 * (x + y * w) + 2) = ps ! (4 * (x + y * w) + 2)) \<and>
       (brightness ps (4 * (x + y * w)) < 180 \<longrightarrow>
          (\<exists>j. fst ?p' ! (4 * (x + y * w))
                 = u8clamp (constrain (real (ps ! (4 * (x + y * w)))
                     + random2 (rnd h j) (- 6) 6 * ?e) 0 255) \<and>
               fst ?p' ! (4 * (x + y * w) + 1)
                 = u8clamp (constrain (real (ps ! (4 * (x + y * w) + 1))
                     + random2 (rnd h j) (- 6) 6 * ?e) 0 255) \<and>
               fst ?p' ! (4 * (x + y * w) + 2)
                 = u8clamp (constrain (real (ps ! (4 * (x + y * w) + 2))
                     + random2 (rnd h j) (- 6) 6 * ?e) 0 255)))"
  proof (intro allI impI)
    fix x y assume a: "x < w \<and> y < hh \<and> 4 * (x + y * w) + 2 < length ps"
    then have "pixel_post h ?e ps (fst ?p') (x + y * w)" using post inr by simp
    then show "(180 \<le> brightness ps (4 * (x + y * w)) \<longrightarrow>
          fst ?p' ! (4 * (x + y * w)) = ps ! (4 * (x + y * w)) \<and>
          fst ?p' ! (4 * (x + y * w) + 1) = ps ! (4 * (x + y * w) + 1) \<and>
          fst ?p' ! (4 * (x + y * w) + 2) = ps ! (4 * (x + y * w) + 2)) \<and>
       (brightness ps (4 * (x + y * w)) < 180 \<longrightarrow>
          (\<exists>j. fst ?p' ! (4 * (x + y * w))
                 = u8clamp (constrain (real (ps ! (4 * (x + y * w)))
                     + random2 (rnd h j) (- 6) 6 * ?e) 0 255) \<and>
               fst ?p' ! (4 * (x + y * w) + 1)
                 = u8clamp (constrain (real (ps ! (4 * (x + y * w) + 1))
                     + random2 (rnd h j) (- 6) 6 * ?e) 0 255) \<and>
               fst ?p' ! (4 * (x + y * w) + 2)
                 = u8clamp (constrain (real (ps ! (4 * (x + y * w) + 2))
                     + random2 (rnd h j) (- 6) 6 * ?e) 0 255)))"
      using a unfolding pixel_post_def noised_def colour_kept_def
      by (auto split: if_splits)
  qed
  have rng: "\<forall>v. 0 \<le> constrain v 0 255 \<and> constrain v 0 255 \<le> 255 \<and> u8clamp (constrain v 0 255) \<le> 255"
    using constrain_bounds[of 0 255] u8clamp_le by simp
  have alpha: "\<forall>i < length ps. i mod 4 = 3 \<or> 4 * (hh * w) \<le> i \<longrightarrow> fst ?p' ! i = ps ! i"
  proof (intro allI impI)
    fix i assume i: "i < length ps" "i mod 4 = 3 \<or> 4 * (hh * w) \<le> i"
    show "fst ?p' ! i = ps ! i"
    proof (cases "4 * (hh * w) \<le> i")
      case True
      then show ?thesis using out i(1) by simp
    next
      case False
      then have m: "i mod 4 = 3" using i(2) by simp
      have e: "i = 4 * (i div 4) + 3" using m by presburger
      have "i div 4 < hh * w" using False by simp
      then have "alpha_kept ps (fst ?p') (4 * (i div 4))"
        using post by (simp add: pixel_post_def)
      then show ?thesis using i(1) e by (simp add: alpha_kept_def)
    qed
  qed
  have ld: "\<not> throws h LoadPixels \<longrightarrow>
       pixels (snd (addNoiseToFigure h s))
         = fst (noise_rows h s 0 (raster h (canvas s @ [LoadPixels]), drawn s))"
    using addNoise_pixels by blast
  have eff: "\<forall>e index p. noise_px h e index p = p \<or>
       (\<exists>i. index = real i \<and> i + 2 < length (fst p) \<and> brightness (fst p) i < 180 \<and>
          noise_px h e index p =
            ((fst p)[i := u8clamp (constrain (real (fst p ! i)
                         + random2 (rnd h (snd p)) (- 6) 6 * e) 0 255),
                     i + 1 := u8clamp (constrain (real (fst p ! (i + 1))
                         + random2 (rnd h (snd p)) (- 6) 6 * e) 0 255),
                     i + 2 := u8clamp (constrain (real (fst p ! (i + 2))
                         + random2 (rnd h (snd p)) (- 6) 6 * e) 0 255)],
             snd p + 1))"
    using noise_px_effect by blast
  show ?thesis using len px rng alpha ld eff by blast
qed

text \<open>
  A canvas of one pixel, with intensity 1 and a first draw of 0: a black pixel stays black
  (the amount is -6), a grey pixel (100, 110, 120) becomes (94, 104, 114), and a bright
  pixel (200, 200, 200) is not touched.
\<close>

lemma noise_on_whole_canvas_example:
  "width one_pixel = real 1 \<and> height one_pixel = real 1 \<and>
   fst (noise_rows dice one_pixel 0 ([100, 110, 120, 255], 0)) = [94, 104, 114, 255] \<and>
   fst (noise_rows dice one_pixel 0 ([200, 200, 200, 255], 0)) = [200, 200, 200, 255] \<and>
   fst (noise_rows dice one_pixel 0 ([0, 0, 0, 255], 0)) = [0, 0, 0, 255] \<and>
   length (fst (noise_rows dice one_pixel 0 ([100, 110, 120, 255], 0))) = length [100, 110, 120, 255 :: nat] \<and>
   \<not> throws dice LoadPixels \<and>
   pixels (snd (addNoiseToFigure dice one_pixel)) = [0, 0, 0, 255]"
proof -
  have d: "width one_pixel = real 1" "height one_pixel = real 1" "emotionalIntensity one_pixel = 1"
    by (simp_all add: one_pixel_def blank_def)
  have q: "\<not> throws dice LoadPixels" "raster dice cs = [0, 0, 0, 255]" "rnd dice 0 = 0" for cs
    by (simp_all add: dice_def)
  have rows: "\<And>ps. noise_rows dice one_pixel 0 (ps, 0) = noise_px dice 1 0 (ps, 0)"
    using d by (simp add: noise_rows.simps noise_cols.simps)
  have e1: "noise_px dice 1 0 ([100, 110, 120, 255], 0) = ([94, 104, 114, 255], 1)"
    by (simp add: noise_px_def px_read_def px_index_def px_write_def Let_def random2_def
        constrain_def u8clamp_def round_half_even_def q)
  have e2: "noise_px dice 1 0 ([200, 200, 200, 255], 0) = ([200, 200, 200, 255], 0)"
    by (simp add: noise_px_def px_read_def px_index_def px_write_def Let_def)
  have e3: "noise_px dice 1 0 ([0, 0, 0, 255], 0) = ([0, 0, 0, 255], 1)"
    by (simp add: noise_px_def px_read_def px_index_def px_write_def Let_def random2_def
        constrain_def u8clamp_def q)
  have dr: "drawn one_pixel = 0" by (simp add: one_pixel_def blank_def)
  note t = noise_on_whole_canvas[OF d(1,2), of dice "[100, 110, 120, 255]" 0]
  from t have l: "length (fst (noise_rows dice one_pixel 0 ([100, 110, 120, 255], 0)))
      = length [100, 110, 120, 255 :: nat]" by blast
  from t q(1) have "pixels (snd (addNoiseToFigure dice one_pixel))
         = fst (noise_rows dice one_pixel 0 (raster dice (canvas one_pixel @ [LoadPixels]), drawn one_pixel))"
    by blast
  then have p: "pixels (snd (addNoiseToFigure dice one_pixel)) = [0, 0, 0, 255]"
    by (simp add: q dr rows e3)
  show ?thesis using d(1,2) l p q(1) by (simp add: rows e1 e2 e3)
qed

subsection \<open>The elements the noise pass leaves as they are\<close>

lemma noise_px_length: "length (fst (noise_px h e index p)) = length (fst p)"
  using noise_px_effect[of h e index p] by auto

lemma noise_px_frame:
  assumes "apart j index"
  shows "fst (noise_px h e index p) ! j = fst p ! j"
proof -
  from noise_px_effect[of h e index p] show ?thesis
  proof
    assume "noise_px h e index p = p"
    then show ?thesis by simp
  next
    assume "\<exists>i. index = real i \<and> i + 2 < length (fst p) \<and> brightness (fst p) i < 180 \<and>
        noise_px h e index p =
          ((fst p)[i := u8clamp (constrain (real (fst p ! i) + random2 (rnd h (snd p)) (- 6) 6 * e) 0 255),
                   i + 1 := u8clamp (constrain (real (fst p ! (i + 1)) + random2 (rnd h (snd p)) (- 6) 6 * e) 0 255),
                   i + 2 := u8clamp (constrain (real (fst p ! (i + 2)) + random2 (rnd h (snd p)) (- 6) 6 * e) 0 255)],
           snd p + 1)"
    then obtain i where i: "index = real i" and
      r: "fst (noise_px h e index p) =
          (fst p)[i := u8clamp (constrain (real (fst p ! i) + random2 (rnd h (snd p)) (- 6) 6 * e) 0 255),
                   i + 1 := u8clamp (constrain (real (fst p ! (i + 1)) + random2 (rnd h (snd p)) (- 6) 6 * e) 0 255),
                   i + 2 := u8clamp (constrain (real (fst p ! (i + 2)) + random2 (rnd h (snd p)) (- 6) 6 * e) 0 255)]"
      by auto
    from assms i have "j \<noteq> i" "j \<noteq> i + 1" "j \<noteq> i + 2"
      unfolding apart_def by auto
    then show ?thesis unfolding r by simp
  qed
qed

lemma noise_cols_frame:
  "(\<And>x'. x \<le> x' \<Longrightarrow> real x' < width s \<Longrightarrow> apart j ((real x' + real y * width s) * 4)) \<Longrightarrow>
   fst (noise_cols h s y x p) ! j = fst p ! j"
proof (induction h s y x p rule: noise_cols.induct)
  case (1 h s y x p)
  show ?case
  proof (cases "real x < width s")
    case True
    have "fst (noise_cols h s y (x + 1)
             (noise_px h (emotionalIntensity s) ((real x + real y * width s) * 4) p)) ! j
          = fst (noise_px h (emotionalIntensity s) ((real x + real y * width s) * 4) p) ! j"
      using True "1.prems" by (intro "1.IH") simp_all
    also have "\<dots> = fst p ! j"
      using True "1.prems"[of x] by (intro noise_px_frame) simp
    finally show ?thesis using True by (subst noise_cols.simps) simp
  next
    case False
    then show ?thesis by (subst noise_cols.simps) simp
  qed
qed

lemma noise_rows_frame:
  "(\<And>x' y'. y \<le> y' \<Longrightarrow> real x' < width s \<Longrightarrow> apart j ((real x' + real y' * width s) * 4)) \<Longrightarrow>
   fst (noise_rows h s y p) ! j = fst p ! j"
proof (induction h s y p rule: noise_rows.induct)
  case (1 h s y p)
  show ?case
  proof (cases "real y < height s")
    case True
    have "fst (noise_rows h s (y + 1) (noise_cols h s y 0 p)) ! j = fst (noise_cols h s y 0 p) ! j"
      using True "1.prems" by (intro "1.IH") simp_all
    also have "\<dots> = fst p ! j"
      using "1.prems"[of y] by (intro noise_cols_frame) simp
    finally show ?thesis using True by (subst noise_rows.simps) simp
  next
    case False
    then show ?thesis by (subst noise_rows.simps) simp
  qed
qed

lemma noise_cols_length: "length (fst (noise_cols h s y x p)) = length (fst p)"
proof (induction h s y x p rule: noise_cols.induct)
  case (1 h s y x p)
  then show ?case by (subst noise_cols.simps) (simp add: noise_px_length)
qed

lemma noise_rows_length: "length (fst (noise_rows h s y p)) = length (fst p)"
proof (induction h s y p rule: noise_rows.induct)
  case (1 h s y p)
  then show ?case by (subst noise_rows.simps) (simp add: noise_cols_length)
qed

lemma row_one_apart:
  assumes "real x < 2004 / 5" "j = 1604 \<or> j = 1605 \<or> j = 1606"
  shows "apart j ((real x + real y * (2004 / 5)) * 4)"
proof -
  from assms(1) have x: "x \<le> 400" by simp
  from assms(2) have j: "1604 \<le> j" "j \<le> 1606" by auto
  have ne: "5 * j \<noteq> 20 * x + 8016 * y + 5 * d" if d: "d \<le> 2" for d
  proof
    assume eq: "5 * j = 20 * x + 8016 * y + 5 * d"
    consider "y = 0" | "y = 1" | "2 \<le> y" by linarith
    then show False
    proof cases
      case 1
      with eq x d j show False by simp
    next
      case 2
      with eq have "5 * j = 5 * (4 * x + d) + 8016" by simp
      then show False by presburger
    next
      case 3
      then have "16032 \<le> 8016 * y" by simp
      with eq j show False by linarith
    qed
  qed
  have "real (5 * j) \<noteq> real (20 * x + 8016 * y + 5 * d)" if "d \<le> 2" for d
    using ne[OF that] by (simp only: of_nat_eq_iff) simp
  from this[of 0] this[of 1] this[of 2] show ?thesis
    unfolding apart_def by (simp add: algebra_simps)
qed

lemma row_one_skipped:
  "noise_px h e ((real x + real (Suc 0) * (2004 / 5)) * 4) p = p"
proof -
  have "\<not> px_index (fst p) ((real x + real (Suc 0) * (2004 / 5)) * 4)"
  proof
    assume "px_index (fst p) ((real x + real (Suc 0) * (2004 / 5)) * 4)"
    then have "real_of_int \<lfloor>(real x + real (Suc 0) * (2004 / 5)) * 4\<rfloor>
        = (real x + real (Suc 0) * (2004 / 5)) * 4"
      unfolding px_index_def by blast
    then have "real_of_int (5 * \<lfloor>(real x + real (Suc 0) * (2004 / 5)) * 4\<rfloor>)
        = real_of_int (20 * int x + 8016)"
      by simp
    then have "5 * \<lfloor>(real x + real (Suc 0) * (2004 / 5)) * 4\<rfloor> = 20 * int x + 8016"
      by (simp only: of_int_eq_iff)
    then show False by presburger
  qed
  then show ?thesis by (simp add: noise_px_def px_read_def Let_def)
qed


lemma frame_pixels:
  assumes "\<forall>c. \<not> throws h c" "flowfield s = Some ff" "distortionField s = Some df"
  shows "\<exists>S cs d. width S = width s \<and> height S = height s \<and>
           pixels (draw h fc s) = fst (noise_rows h S 0 (raster h cs, d))"
  unfolding frame_quiet[OF assms] atmo_quiet[OF assms(1)]
  by (intro exI[of _ "s\<lparr>globalTime := real fc * 0.008,
          emotionalIntensity := map_p5 (sin (real fc * 0.008 * 0.3)) (- 1) 1 0.5 1,
          flowfield := Some (fst (update h ff (vectors s) (real fc * 0.008))),
          vectors := snd (update h ff (vectors s) (real fc * 0.008)),
          canvas := canvas s
            @ [Background (220 + sin (real fc * 0.008) * 2)
                          (215 + sin (real fc * 0.008 * 1.1) * 2)
                          (205 + sin (real fc * 0.008 * 1.2) * 2),
               Translate (width s / 2) (height s / 2)]
            @ drawShadowLayer df (s\<lparr>globalTime := real fc * 0.008,
                 emotionalIntensity := map_p5 (sin (real fc * 0.008 * 0.3)) (- 1) 1 0.5 1\<rparr>)
            @ drawMainFigure df (s\<lparr>globalTime := real fc * 0.008,
                 emotionalIntensity := map_p5 (sin (real fc * 0.008 * 0.3)) (- 1) 1 0.5 1\<rparr>)\<rparr>"] exI)
     simp

lemma resized_size: "width resized = 2004 / 5" "height resized = 800"
  by (simp_all add: resized_def run_def windowResized_keeps)

lemma resized_pixels:
  "\<exists>S d. width S = 2004 / 5 \<and> pixels resized = fst (noise_rows night S 0 (replicate 1280000 0, d))"
proof -
  let ?s = "run night [] blank"
  let ?r = "?s\<lparr>width := min (501 * 0.8) 600, height := min (1000 * 0.8) 800,
       canvas := canvas ?s @ [ResizeCanvas (min (501 * 0.8) 600) (min (1000 * 0.8) 800)]\<rparr>"
  have r: "resized = draw night 1 ?r"
    by (simp add: resized_def run_def windowResized_draw)
  have q: "\<forall>c. \<not> throws night c" by (simp add: night_def)
  from run_ready[of night "[]" blank] obtain ff df where
    f: "flowfield ?r = Some ff" "distortionField ?r = Some df"
    by (auto simp: ready_def)
  from frame_pixels[OF q f, of 1] obtain S cs d where
    "width S = width ?r" "pixels (draw night 1 ?r) = fst (noise_rows night S 0 (raster night cs, d))"
    by blast
  then have "width S = 2004 / 5 \<and> pixels resized = fst (noise_rows night S 0 (replicate 1280000 0, d))"
    unfolding r by (simp add: night_def)
  then show ?thesis by blast
qed

lemma stored_ge_2:
  assumes "1 / 2 \<le> e" "e \<le> 1"
  shows "2 \<le> u8clamp (constrain (real 0 + random2 (3 / 4) (- 6) 6 * e) 0 255)"
proof -
  let ?v = "3 * e"
  have v: "3 / 2 \<le> ?v" "?v \<le> 3" using assms by simp_all
  have c: "constrain (real 0 + random2 (3 / 4) (- 6) 6 * e) 0 255 = ?v"
    using v by (simp add: constrain_def random2_def)
  have fl: "1 \<le> \<lfloor>?v\<rfloor>" using v(1) by linarith
  have "2 \<le> round_half_even ?v"
  proof (cases "2 \<le> \<lfloor>?v\<rfloor>")
    case True
    then show ?thesis by (simp add: round_half_even_def Let_def)
  next
    case False
    with fl have one: "\<lfloor>?v\<rfloor> = 1" by linarith
    then show ?thesis using v(1) by (simp add: round_half_even_def Let_def)
  qed
  then have "2 \<le> nat (round_half_even ?v)" by simp
  then show ?thesis unfolding c using v by (simp add: u8clamp_def)
qed

section \<open>The claims\<close>


subsection \<open>The emotional intensity\<close>

text \<open>
  Claim C1. In every run of the sketch that has called \<open>draw\<close> or \<open>mouseMoved\<close> at
  least once (a resize calls \<open>draw\<close>), the emotional intensity lies between 0.5 and 1.  After any run, \<open>draw\<close>
  sets it to \<open>map(sin(globalTime * 0.3), -1, 1, 0.5, 1)\<close>, where \<open>globalTime\<close> is
  \<open>frameCount * 0.008\<close>, and that value lies between 0.5 and 1; \<open>mouseMoved\<close> sets it
  to the old value plus the pointer speed times 0.0008, constrained to 0.5..1; the nudge is
  not negative and \<open>mouseMoved\<close> never decreases the intensity.
\<close>

theorem emotionalIntensity_bounded:
  assumes "list_ex sets_intensity evs"
  shows "1 / 2 \<le> emotionalIntensity (run h evs s) \<and> emotionalIntensity (run h evs s) \<le> 1 \<and>
     emotionalIntensity (draw h frameCount (run h evs' s))
       = map_p5 (sin (real frameCount * 0.008 * 0.3)) (- 1) 1 0.5 1 \<and>
     1 / 2 \<le> map_p5 (sin (real frameCount * 0.008 * 0.3)) (- 1) 1 0.5 1 \<and>
     map_p5 (sin (real frameCount * 0.008 * 0.3)) (- 1) 1 0.5 1 \<le> 1 \<and>
     emotionalIntensity (mouseMoved mx my px py (run h evs' s))
       = constrain (emotionalIntensity (run h evs' s) + dist_p5 mx my px py * 0.0008) 0.5 1 \<and>
     1 / 2 \<le> emotionalIntensity (mouseMoved mx my px py (run h evs' s)) \<and>
     emotionalIntensity (mouseMoved mx my px py (run h evs' s)) \<le> 1 \<and>
     0 \<le> dist_p5 mx my px py * 0.0008 \<and>
     emotionalIntensity (run h evs' s) \<le> emotionalIntensity (mouseMoved mx my px py (run h evs' s))"
proof -
  have m: "emotionalIntensity (mouseMoved mx my px py (run h evs' s))
       = constrain (emotionalIntensity (run h evs' s) + dist_p5 mx my px py * 0.0008) 0.5 1"
    by (simp add: mouseMoved_def Let_def)
  have d: "0 \<le> dist_p5 mx my px py * 0.0008"
    using dist_p5_nonneg[of mx my px py] by simp
  have mono: "emotionalIntensity (run h evs' s) \<le> emotionalIntensity (mouseMoved mx my px py (run h evs' s))"
    unfolding m using run_intensity_le[of h evs' s] d by (rule constrain_mono)
  have mb: "1 / 2 \<le> emotionalIntensity (mouseMoved mx my px py (run h evs' s)) \<and>
     emotionalIntensity (mouseMoved mx my px py (run h evs' s)) \<le> 1"
    unfolding m using constrain_bounds[of "0.5" 1] by simp
  show ?thesis
    using run_intensity_ge[OF assms, of h s] run_intensity_le[of h evs s]
      draw_intensity[OF run_ready, of h frameCount h evs' s]
      map_p5_sin_bounds[of "real frameCount * 0.008 * 0.3"] m d mono mb
    by simp
qed

text \<open>A run with a resize and a pointer move of speed 5.\<close>

theorem emotionalIntensity_bounded_witness:
  "list_ex sets_intensity [WindowResized 1000 500 1, MouseMoved 3 4 0 0] \<and>
   1 / 2 \<le> emotionalIntensity (run quiet_host [WindowResized 1000 500 1, MouseMoved 3 4 0 0] blank) \<and>
   emotionalIntensity (run quiet_host [WindowResized 1000 500 1, MouseMoved 3 4 0 0] blank) \<le> 1 \<and>
   emotionalIntensity (run quiet_host [] blank)
     \<le> emotionalIntensity (mouseMoved 3 4 0 0 (run quiet_host [] blank))"
  using emotionalIntensity_bounded
    [of "[WindowResized 1000 500 1, MouseMoved 3 4 0 0]" quiet_host blank 1 "[]" 3 4 0 0]
  by simp

subsection \<open>The distortion field\<close>

text \<open>
  Claim C3. With draws of \<open>random\<close> in the unit interval, \<open>setup\<close> leaves eight
  oscillators in the distortion field, each with its frequency in [0.002, 0.003), its
  amplitude in [1.5, 3), its phase in [0, TWO_PI) and its speed in [0.0005, 0.0008); every
  run of the sketch ends with the same eight oscillators, and no callback changes the
  distortion field of any state.  (\<open>getComplexDistortion\<close> is a function of the
  oscillators it is given and returns only the offset.)
\<close>

theorem distortionField_fixed:
  assumes "\<forall>n. 0 \<le> rnd h n \<and> rnd h n < 1"
  shows "\<exists>df. distortionField (run h [] s) = Some df \<and> length df = 8 \<and>
           (\<forall>d \<in> set df. osc_ok d) \<and>
           (\<forall>evs. distortionField (run h evs s) = Some df) \<and>
           (\<forall>e s'. distortionField (step h e s') = distortionField s')"
  using setup_props[of h s] assms run_distortionField[of h _ s] step_distortionField
  by (auto simp: run_def)

text \<open>The host whose \<open>random\<close> always returns one half.\<close>

theorem distortionField_fixed_witness:
  "(\<forall>n. 0 \<le> rnd quiet_host n \<and> rnd quiet_host n < 1) \<and>
   (\<exists>df. distortionField (run quiet_host [] blank) = Some df \<and> length df = 8 \<and>
           (\<forall>d \<in> set df. osc_ok d) \<and>
           (\<forall>evs. distortionField (run quiet_host evs blank) = Some df))"
proof -
  have r: "\<forall>n. 0 \<le> rnd quiet_host n \<and> rnd quiet_host n < 1"
    by (simp add: quiet_host_def)
  from distortionField_fixed[OF r, of blank] r show ?thesis by blast
qed

subsection \<open>The canvas size\<close>

text \<open>
  Claim C7. \<open>windowResized\<close> sets the canvas width to \<open>min(windowWidth * 0.8, 600)\<close>
  and the height to \<open>min(windowHeight * 0.8, 800)\<close>, so the canvas is at most 600 wide
  and 800 high after a resize (the frame that \<open>resizeCanvas\<close> draws leaves the size as
  it is); \<open>setup\<close> creates it 600 by 800, and it is never wider than 600 nor higher
  than 800 in any run of the sketch.
\<close>

theorem windowResized_clamps:
  "width (windowResized h frameCount windowWidth windowHeight s) = min (windowWidth * 0.8) 600 \<and>
   height (windowResized h frameCount windowWidth windowHeight s) = min (windowHeight * 0.8) 800 \<and>
   width (windowResized h frameCount windowWidth windowHeight s) \<le> 600 \<and>
   height (windowResized h frameCount windowWidth windowHeight s) \<le> 800 \<and>
   width (run h [] s) = 600 \<and> height (run h [] s) = 800 \<and>
   width (run h evs s) \<le> 600 \<and> height (run h evs s) \<le> 800"
  using setup_props[of h s] run_dims[of h evs s]
  by (simp add: windowResized_keeps run_def)

subsection \<open>The catch-all of draw\<close>

text \<open>
  Claim C6. If the \<open>try\<close> block of \<open>draw\<close> raises an exception, wherever in the
  frame, \<open>draw\<close> ends in the state the exception left, with one more line on the
  console (the failed draw cycle and the exception) and the animation loop turned off;
  the exception is one thrown by a backend call, and the canvas has received only calls
  the backend accepted: nothing is run again.  If \<open>flowfield\<close> or
  \<open>distortionField\<close> holds no object, \<open>draw\<close> logs that, turns the loop off and
  draws nothing.  If nothing is raised, the loop and the console stay as they are.
\<close>

theorem draw_halts_on_failure:
  "(fst (draw_try h frameCount s) = Some e \<longrightarrow>
      draw h frameCount s
        = (snd (draw_try h frameCount s))\<lparr>console := console s @ [DrawCycleFailed e],
                                           looping := False\<rparr> \<and>
      \<not> looping (draw h frameCount s) \<and>
      console (draw h frameCount s) = console s @ [DrawCycleFailed e] \<and>
      (\<exists>c. e = Thrown c \<and> throws h c) \<and>
      (\<exists>cs. canvas (draw h frameCount s) = canvas s @ cs \<and> list_all (\<lambda>c. \<not> throws h c) cs)) \<and>
   (flowfield s = None \<or> distortionField s = None \<longrightarrow>
      draw h frameCount s = s\<lparr>console := console s @ [NotInitialized], looping := False\<rparr> \<and>
      \<not> looping (draw h frameCount s) \<and>
      canvas (draw h frameCount s) = canvas s) \<and>
   (fst (draw_try h frameCount s) = None \<and> ready s \<longrightarrow>
      draw h frameCount s = snd (draw_try h frameCount s) \<and>
      looping (draw h frameCount s) = looping s \<and>
      console (draw h frameCount s) = console s)"
proof (intro conjI impI)
  assume e: "fst (draw_try h frameCount s) = Some e"
  have nz: "\<not> (flowfield s = None \<or> distortionField s = None)"
  proof
    assume "flowfield s = None \<or> distortionField s = None"
    from draw_try_uninit[OF this, of h frameCount] e show False by simp
  qed
  then obtain ff df where f: "flowfield s = Some ff" "distortionField s = Some df" by auto
  have c: "console (snd (draw_try h frameCount s)) = console s"
    using draw_try_keeps[OF f, of frameCount h] by (simp add: stage_keeps_def)
  show d: "draw h frameCount s
        = (snd (draw_try h frameCount s))\<lparr>console := console s @ [DrawCycleFailed e],
                                           looping := False\<rparr>"
    using e c by (cases "draw_try h frameCount s") (simp add: draw_def)
  show "\<not> looping (draw h frameCount s)" by (simp add: d)
  show "console (draw h frameCount s) = console s @ [DrawCycleFailed e]" by (simp add: d)
  show "\<exists>c. e = Thrown c \<and> throws h c"
    using sound_draw_try[of h s frameCount] e
    by (auto simp: calls_sound_def split: error.splits)
  show "\<exists>cs. canvas (draw h frameCount s) = canvas s @ cs \<and> list_all (\<lambda>c. \<not> throws h c) cs"
    using sound_draw_try[of h s frameCount] by (simp add: d calls_sound_def)
next
  assume u: "flowfield s = None \<or> distortionField s = None"
  show d: "draw h frameCount s = s\<lparr>console := console s @ [NotInitialized], looping := False\<rparr>"
    by (simp add: draw_def draw_try_uninit[OF u])
  show "\<not> looping (draw h frameCount s)" by (simp add: d)
  show "canvas (draw h frameCount s) = canvas s" by (simp add: d)
next
  assume n: "fst (draw_try h frameCount s) = None \<and> ready s"
  then obtain ff df where f: "flowfield s = Some ff" "distortionField s = Some df"
    by (auto simp: ready_def)
  show d: "draw h frameCount s = snd (draw_try h frameCount s)"
    using n by (cases "draw_try h frameCount s") (simp add: draw_def)
  show "looping (draw h frameCount s) = looping s" "console (draw h frameCount s) = console s"
    using draw_try_keeps[OF f, of frameCount h] by (simp_all add: d stage_keeps_def)
qed

text \<open>
  The frame after \<open>setup\<close> on a host whose \<open>loadPixels()\<close> throws (inside
  \<open>addNoiseToFigure\<close>, called by \<open>addAtmosphericEffects\<close>), and a frame drawn
  before the script has set its bindings.
\<close>

theorem draw_halts_on_failure_witness:
  "fst (draw_try load_fails 1 (run load_fails [] blank)) = Some (Thrown LoadPixels) \<and>
   \<not> looping (draw load_fails 1 (run load_fails [] blank)) \<and>
   console (draw load_fails 1 (run load_fails [] blank))
     = console (run load_fails [] blank) @ [DrawCycleFailed (Thrown LoadPixels)] \<and>
   throws load_fails LoadPixels \<and>
   flowfield blank = None \<and>
   draw quiet_host 1 blank = blank\<lparr>console := [NotInitialized], looping := False\<rparr> \<and>
   canvas (draw quiet_host 1 blank) = []"
proof -
  have a: "fst (draw_try load_fails 1 (run load_fails [] blank)) = Some (Thrown LoadPixels)"
    by (rule draw_try_load_fails) (rule run_ready)
  have b: "flowfield blank = None" by (simp add: blank_def)
  have t: "throws load_fails LoadPixels" by (simp add: load_fails_def)
  have cb: "console blank = []" "canvas blank = []" by (simp_all add: blank_def)
  show ?thesis
    using draw_halts_on_failure[of load_fails 1 "run load_fails [] blank" "Thrown LoadPixels"]
      draw_halts_on_failure[of quiet_host 1 blank] a b t cb
    by simp
qed

subsection \<open>The flow field and the figure\<close>

text \<open>
  Claim C2, as the code has it.  No drawing function reads the flow field: a frame makes
  the same calls into the rendering backend, vertex positions included, whatever vectors
  the flow field holds and whatever \<open>noise\<close> returns, and so does every run of the
  sketch; the calls of the figure are the same in two states that differ in the flow
  field only.
\<close>

theorem figure_ignores_flowfield:
  "canvas (draw (h\<lparr>noise := nz\<rparr>) frameCount (s\<lparr>flowfield := Some ff, vectors := v\<rparr>))
     = canvas (draw h frameCount (s\<lparr>flowfield := Some ff', vectors := v'\<rparr>)) \<and>
   canvas (run (h\<lparr>noise := nz\<rparr>) evs s) = canvas (run h evs s) \<and>
   drawFigure df isShadow (s\<lparr>flowfield := f, vectors := v\<rparr>) = drawFigure df isShadow s"
proof -
  let ?a = "s\<lparr>flowfield := Some ff', vectors := v'\<rparr>"
  have "flow_apart ?a (s\<lparr>flowfield := Some ff, vectors := v\<rparr>)"
    unfolding flow_apart_def by (intro exI[of _ "Some ff"] exI[of _ v]) simp
  from flow_apart_draw[OF this noise_host[of h nz], where ff = ff' and ff' = ff and fc = frameCount]
  have 1: "canvas (draw (h\<lparr>noise := nz\<rparr>) frameCount (s\<lparr>flowfield := Some ff, vectors := v\<rparr>))
     = canvas (draw h frameCount ?a)"
    by (simp add: flow_apart_canvas)
  have 2: "canvas (run (h\<lparr>noise := nz\<rparr>) evs s) = canvas (run h evs s)"
    using flow_apart_run[OF noise_host[of h nz], of evs s] by (rule flow_apart_canvas)
  have 3: "drawFigure df isShadow (s\<lparr>flowfield := f, vectors := v\<rparr>) = drawFigure df isShadow s"
    by (rule drawFigure_reads) (simp add: same_inputs_def)
  from 1 2 3 show ?thesis by simp
qed

text \<open>
  There is no frame whose calls depend on the contents of the flow field, as the claim
  says there is.
\<close>

theorem figure_reads_flowfield_counterexample:
  "\<not> (\<exists>h nz frameCount s ff v ff' v'.
        canvas (draw (h\<lparr>noise := nz\<rparr>) frameCount (s\<lparr>flowfield := Some ff, vectors := v\<rparr>))
          \<noteq> canvas (draw h frameCount (s\<lparr>flowfield := Some ff', vectors := v'\<rparr>)))"
proof -
  have "\<And>h nz frameCount s ff v ff' v'.
        canvas (draw (h\<lparr>noise := nz\<rparr>) frameCount (s\<lparr>flowfield := Some ff, vectors := v\<rparr>))
          = canvas (draw h frameCount (s\<lparr>flowfield := Some ff', vectors := v'\<rparr>))"
  proof -
    fix h :: host and nz frameCount and s :: state and ff v ff' v'
    have "flow_apart (s\<lparr>flowfield := Some ff', vectors := v'\<rparr>) (s\<lparr>flowfield := Some ff, vectors := v\<rparr>)"
      unfolding flow_apart_def by (intro exI[of _ "Some ff"] exI[of _ v]) simp
    from flow_apart_draw[OF this noise_host[of h nz], where ff = ff' and ff' = ff and fc = frameCount]
    show "canvas (draw (h\<lparr>noise := nz\<rparr>) frameCount (s\<lparr>flowfield := Some ff, vectors := v\<rparr>))
          = canvas (draw h frameCount (s\<lparr>flowfield := Some ff', vectors := v'\<rparr>))"
      by (simp add: flow_apart_canvas)
  qed
  then show ?thesis by blast
qed

subsection \<open>What a renderer's output depends on\<close>

text \<open>
  Claim C8, as the code has it.  In two states with the same time, the same emotional
  intensity and the same canvas size, and with the same distortion field and the same
  base distortion, the body, the arms, the head, the whole figure, the vignette and the
  colour wash make the same backend calls, whatever else differs between the states.
  The noise injection gives the same array and takes the same number of draws when,
  besides, it starts from the same array and gets the same draws of \<open>random\<close>; no
  other part of the host matters.
\<close>

theorem renderers_read_time_and_parameters:
  assumes "same_inputs s s'"
  shows "drawBody isShadow b s = drawBody isShadow b s' \<and>
         drawArms b s = drawArms b s' \<and>
         call_drawHead df b s = call_drawHead df b s' \<and>
         drawFigure df isShadow s = drawFigure df isShadow s' \<and>
         drawVignette s = drawVignette s' \<and>
         addEmotionalGlow s = addEmotionalGlow s' \<and>
         noise_rows h s 0 (ps, k) = noise_rows (h\<lparr>throws := t, noise := nz, raster := r\<rparr>) s' 0 (ps, k)"
proof -
  have "rnd h = rnd (h\<lparr>throws := t, noise := nz, raster := r\<rparr>)" by simp
  from noise_rows_reads[OF assms this] show ?thesis
    using assms
    by (simp add: drawBody_reads[of s s'] drawArms_reads[of s s'] call_drawHead_eq
        drawHead_reads[of s s'] drawFigure_reads[of s s'] drawVignette_reads[of s s']
        addEmotionalGlow_reads[of s s'])
qed

text \<open>Two states that differ in the pixel array, the loop flag and the flow field.\<close>

theorem renderers_read_time_and_parameters_witness:
  "same_inputs blank (blank\<lparr>pixels := [1, 2, 3, 4], looping := False, drawn := 7\<rparr>) \<and>
   drawFigure [] False blank
     = drawFigure [] False (blank\<lparr>pixels := [1, 2, 3, 4], looping := False, drawn := 7\<rparr>) \<and>
   drawVignette blank = drawVignette (blank\<lparr>pixels := [1, 2, 3, 4], looping := False, drawn := 7\<rparr>) \<and>
   addEmotionalGlow blank
     = addEmotionalGlow (blank\<lparr>pixels := [1, 2, 3, 4], looping := False, drawn := 7\<rparr>)"
proof -
  have a: "same_inputs blank (blank\<lparr>pixels := [1, 2, 3, 4], looping := False, drawn := 7\<rparr>)"
    by (simp add: same_inputs_def)
  from renderers_read_time_and_parameters[OF a, of False "(0, 0)" "[]"] a show ?thesis by simp
qed

text \<open>
  Two invocations of the noise injection, one after the other, at the same time, intensity,
  distortion field and flow field, on the same canvas content: the first one leaves the
  pixel black, the second one makes it (3, 3, 3).
\<close>

theorem noise_injection_counterexample:
  "pixels (snd (addNoiseToFigure dice one_pixel)) = [0, 0, 0, 255] \<and>
   pixels (snd (addNoiseToFigure dice (snd (addNoiseToFigure dice one_pixel)))) = [3, 3, 3, 255] \<and>
   same_inputs one_pixel (snd (addNoiseToFigure dice one_pixel)) \<and>
   distortionField (snd (addNoiseToFigure dice one_pixel)) = distortionField one_pixel \<and>
   flowfield (snd (addNoiseToFigure dice one_pixel)) = flowfield one_pixel \<and>
   pixels (snd (addNoiseToFigure dice (snd (addNoiseToFigure dice one_pixel))))
     \<noteq> pixels (snd (addNoiseToFigure dice one_pixel))"
proof -
  have px: "\<And>k. noise_px dice 1 0 ([0, 0, 0, 255], k)
      = ([u8clamp (constrain (random2 (rnd dice k) (- 6) 6) 0 255),
          u8clamp (constrain (random2 (rnd dice k) (- 6) 6) 0 255),
          u8clamp (constrain (random2 (rnd dice k) (- 6) 6) 0 255), 255], k + 1)"
    by (simp add: noise_px_def px_read_def px_index_def px_write_def Let_def)
  have rows: "\<And>s k. width s = 1 \<Longrightarrow> height s = 1 \<Longrightarrow> emotionalIntensity s = 1 \<Longrightarrow>
      noise_rows dice s 0 ([0, 0, 0, 255], k) = noise_px dice 1 0 ([0, 0, 0, 255], k)"
    by (simp add: noise_rows.simps noise_cols.simps)
  have a0: "u8clamp (constrain (random2 (rnd dice 0) (- 6) 6) 0 255) = 0"
    by (simp add: dice_def random2_def constrain_def u8clamp_def)
  have a1: "u8clamp (constrain (random2 (rnd dice (Suc 0)) (- 6) 6) 0 255) = 3"
    by (simp add: dice_def random2_def constrain_def u8clamp_def round_half_even_def Let_def)
  have q: "\<not> throws dice c" "raster dice cs = [0, 0, 0, 255]" for c cs
    by (simp_all add: dice_def)
  have first: "snd (addNoiseToFigure dice one_pixel)
      = one_pixel\<lparr>pixels := [0, 0, 0, 255], drawn := 1,
                   canvas := [LoadPixels, UpdatePixels [0, 0, 0, 255]]\<rparr>"
    by (simp add: addNoiseToFigure_def Let_def q rows px a0 one_pixel_def blank_def)
  have second: "pixels (snd (addNoiseToFigure dice
        (one_pixel\<lparr>pixels := [0, 0, 0, 255], drawn := 1,
                   canvas := [LoadPixels, UpdatePixels [0, 0, 0, 255]]\<rparr>))) = [3, 3, 3, 255]"
    by (simp add: addNoiseToFigure_def Let_def q rows px a1 one_pixel_def blank_def)
  show ?thesis
    unfolding first second by (simp add: same_inputs_def)
qed

subsection \<open>The names declared twice\<close>



subsection \<open>The flow field is regenerated every frame\<close>

text \<open>
  Claim C5. On a flow field as the constructor makes it, \<open>update(time)\<close> writes every
  index \<open>0 .. cols * rows - 1\<close> of the field: the element at \<open>x + y * cols\<close> is a new
  vector, of the angle \<open>noise(xoff, yoff, time * 0.015) * TWO_PI * 2 +
  sin(time * 0.08 + x * 0.1 + y * 0.1) * 0.3\<close> with \<open>xoff = 0.1 * x\<close> and
  \<open>yoff = 0.1 * y\<close>, scaled by \<open>particleSpeed\<close>, so that its magnitude is 0.15; the
  array keeps its length and the vectors that existed before are not touched.  In every
  run the flow field has 30 by 40 cells of this shape, and a call of \<open>draw\<close> whose
  \<open>background\<close> call is accepted leaves the flow field that one call of \<open>update\<close> at
  \<open>globalTime\<close> gives.
\<close>

theorem update_fills_field:
  assumes "ff_shape ff"
  shows "(\<forall>i < nat (cols ff) * nat (rows ff).
           \<exists>a. field (fst (update h ff hp time)) ! i = Some a \<and>
               length hp \<le> a \<and> a < length (snd (update h ff hp time)) \<and>
               snd (update h ff hp time) ! a
                 = vmult (fromAngle
                     (noise h (0.1 * real (i mod nat (cols ff))) (0.1 * real (i div nat (cols ff)))
                        (time * 0.015) * TWO_PI * 2
                      + sin (time * 0.08 + real (i mod nat (cols ff)) * 0.1
                             + real (i div nat (cols ff)) * 0.1) * 0.3)) 0.15 \<and>
               mag (snd (update h ff hp time) ! a) = 0.15) \<and>
         length (field (fst (update h ff hp time))) = nat (cols ff) * nat (rows ff) \<and>
         ff_shape (fst (update h ff hp time)) \<and>
         (\<forall>a < length hp. snd (update h ff hp time) ! a = hp ! a) \<and>
         (\<exists>ff'. flowfield (run h evs s) = Some ff' \<and> ff_shape ff' \<and> cols ff' = 30 \<and> rows ff' = 40) \<and>
         (flowfield s = Some ff \<and> distortionField s = Some df \<and>
          \<not> throws h (Background (BACKGROUND ! 0 + sin (real frameCount * 0.008) * 2)
                                   (BACKGROUND ! 1 + sin (real frameCount * 0.008 * 1.1) * 2)
                                   (BACKGROUND ! 2 + sin (real frameCount * 0.008 * 1.2) * 2)) \<longrightarrow>
          flowfield (draw h frameCount s)
            = Some (fst (update h ff (vectors s) (real frameCount * 0.008))) \<and>
          vectors (draw h frameCount s) = snd (update h ff (vectors s) (real frameCount * 0.008)))"
proof (intro conjI impI allI)
  let ?n = "nat (cols ff)" and ?m = "nat (rows ff)"
  note sp = update_spec[OF assms, of h hp time]
  show "length (field (fst (update h ff hp time))) = ?n * ?m"
    using sp by (simp add: ff_shape_def)
  show "ff_shape (fst (update h ff hp time))" using sp by simp
  show "\<exists>ff'. flowfield (run h evs s) = Some ff' \<and> ff_shape ff' \<and> cols ff' = 30 \<and> rows ff' = 40"
    using run_flowfield[of h evs s] by blast
  {
    fix a assume "a < length hp"
    then show "snd (update h ff hp time) ! a = hp ! a" using sp by simp
  }
  {
    fix i assume i: "i < ?n * ?m"
    let ?a = "length hp + (i mod ?n) * ?m + i div ?n"
    have ps: "particleSpeed ff = 0.15" using assms by (simp add: ff_shape_def)
    have f: "field (fst (update h ff hp time)) ! i = Some ?a" using sp i by simp
    have v: "snd (update h ff hp time) ! ?a
        = cell_vec h ff time (i mod ?n) (0.1 * real (i mod ?n)) (i div ?n) (0.1 * real (i div ?n))"
      using sp i by simp
    have lt: "?a < length (snd (update h ff hp time))"
      using cell_address[OF i] sp by simp
    have v': "snd (update h ff hp time) ! ?a
        = vmult (fromAngle
                     (noise h (0.1 * real (i mod ?n)) (0.1 * real (i div ?n)) (time * 0.015) * TWO_PI * 2
                      + sin (time * 0.08 + real (i mod ?n) * 0.1 + real (i div ?n) * 0.1) * 0.3)) 0.15"
      unfolding v by (simp add: cell_vec_def cell_angle_def ps)
    have mg: "mag (snd (update h ff hp time) ! ?a) = 0.15"
      unfolding v' mag_scaled_unit by simp
    show "\<exists>a. field (fst (update h ff hp time)) ! i = Some a \<and>
               length hp \<le> a \<and> a < length (snd (update h ff hp time)) \<and>
               snd (update h ff hp time) ! a
                 = vmult (fromAngle
                     (noise h (0.1 * real (i mod ?n)) (0.1 * real (i div ?n)) (time * 0.015) * TWO_PI * 2
                      + sin (time * 0.08 + real (i mod ?n) * 0.1 + real (i div ?n) * 0.1) * 0.3)) 0.15 \<and>
               mag (snd (update h ff hp time) ! a) = 0.15"
      using f lt v' mg by (intro exI[of _ ?a]) simp
  }
  {
    assume a: "flowfield s = Some ff \<and> distortionField s = Some df \<and>
          \<not> throws h (Background (BACKGROUND ! 0 + sin (real frameCount * 0.008) * 2)
                                   (BACKGROUND ! 1 + sin (real frameCount * 0.008 * 1.1) * 2)
                                   (BACKGROUND ! 2 + sin (real frameCount * 0.008 * 1.2) * 2))"
    then have f: "flowfield s = Some ff" "distortionField s = Some df" by simp_all
    from draw_updates_once[OF f, of h frameCount] a
    show "flowfield (draw h frameCount s)
            = Some (fst (update h ff (vectors s) (real frameCount * 0.008)))"
      and "vectors (draw h frameCount s) = snd (update h ff (vectors s) (real frameCount * 0.008))"
      by simp_all
  }
qed

text \<open>A flow field of two cells, updated at time 0 on the host that throws nothing.\<close>

theorem update_fills_field_witness:
  "ff_shape two_cells \<and>
   (\<exists>a. field (fst (update quiet_host two_cells [] 0)) ! 1 = Some a \<and>
        mag (snd (update quiet_host two_cells [] 0) ! a) = 0.15) \<and>
   length (field (fst (update quiet_host two_cells [] 0))) = 2 \<and>
   flowfield small_sketch = Some two_cells \<and> distortionField small_sketch = Some [] \<and>
   flowfield (draw quiet_host 0 small_sketch)
     = Some (fst (update quiet_host two_cells (vectors small_sketch) (real 0 * 0.008)))"
proof -
  have a: "ff_shape two_cells" by (simp add: ff_shape_def two_cells_def)
  have c: "nat (cols two_cells) * nat (rows two_cells) = 2" by (simp add: two_cells_def)
  have f: "flowfield small_sketch = Some two_cells" "distortionField small_sketch = Some []"
    by (simp_all add: small_sketch_def)
  have q: "\<And>c. \<not> throws quiet_host c" by (simp add: quiet_host_def)
  note t = update_fills_field[OF a, where h = quiet_host and hp = "[]" and time = 0 and evs = "[]"
      and s = small_sketch and df = "[]" and frameCount = 0]
  from t c have "\<forall>i < 2. \<exists>a. field (fst (update quiet_host two_cells [] 0)) ! i = Some a \<and>
        mag (snd (update quiet_host two_cells [] 0) ! a) = 0.15"
    by (simp, blast)
  then have e: "\<exists>a. field (fst (update quiet_host two_cells [] 0)) ! 1 = Some a \<and>
        mag (snd (update quiet_host two_cells [] 0) ! a) = 0.15"
    by (elim allE[of _ 1]) simp
  from t c f q have r: "length (field (fst (update quiet_host two_cells [] 0))) = 2"
    "flowfield (draw quiet_host 0 small_sketch)
     = Some (fst (update quiet_host two_cells (vectors small_sketch) (real 0 * 0.008)))"
    by simp_all
  show ?thesis using a e f r by blast
qed

subsection \<open>getForce\<close>

text \<open>
  Claim C9. On a flow field with at least one column and one row, a nonzero resolution,
  one element for each cell and references to existing vectors only (as every run of the
  sketch has it), \<open>getForce(x, y, intensity)\<close> reads the field at an index within its
  bounds, for all real \<open>x\<close>, \<open>y\<close> and \<open>intensity\<close>.  It returns a new vector
  object: the stored vector of the cell scaled by \<open>intensity\<close>, or the zero vector when
  the cell is \<open>undefined\<close>; every vector that existed before, the stored one included,
  is as it was.  The function has no failing branch.
\<close>

theorem getForce_total:
  assumes "1 \<le> cols ff" "1 \<le> rows ff" "resolution ff \<noteq> 0"
    "length (field ff) = nat (cols ff * rows ff)" "refs_ok ff hp"
  shows "0 \<le> force_index ff x y \<and> force_index ff x y < int (length (field ff)) \<and>
     js_read (field ff) (force_index ff x y) = field ff ! nat (force_index ff x y) \<and>
     length hp \<le> fst (getForce ff hp x y intensity) \<and>
     fst (getForce ff hp x y intensity) < length (snd (getForce ff hp x y intensity)) \<and>
     (\<forall>a < length hp. snd (getForce ff hp x y intensity) ! a = hp ! a) \<and>
     snd (getForce ff hp x y intensity) ! fst (getForce ff hp x y intensity)
       = vmult (case field ff ! nat (force_index ff x y) of
                  Some a \<Rightarrow> hp ! a
                | None \<Rightarrow> createVector 0 0) intensity \<and>
     (field ff ! nat (force_index ff x y) = None \<longrightarrow>
        snd (getForce ff hp x y intensity) ! fst (getForce ff hp x y intensity) = createVector 0 0) \<and>
     (\<exists>ff'. flowfield (run h evs s) = Some ff' \<and> 1 \<le> cols ff' \<and> 1 \<le> rows ff' \<and>
        resolution ff' \<noteq> 0 \<and> length (field ff') = nat (cols ff' * rows ff') \<and>
        refs_ok ff' (vectors (run h evs s)))"
proof -
  from force_index_bounds[OF assms(1,2), of x y]
  have b: "0 \<le> force_index ff x y" "force_index ff x y < cols ff * rows ff" by simp_all
  have "0 \<le> cols ff * rows ff" using assms(1,2) by simp
  then have l: "int (length (field ff)) = cols ff * rows ff" using assms(4) by simp
  have b2: "force_index ff x y < int (length (field ff))" using b(2) l by simp
  then have n: "nat (force_index ff x y) < length (field ff)" using b(1) by simp
  have r: "js_read (field ff) (force_index ff x y) = field ff ! nat (force_index ff x y)"
    using b(1) n by (simp add: js_read_def)
  note g = getForce_spec[OF assms(5), of x y intensity]
  from g have g2: "length hp \<le> fst (getForce ff hp x y intensity)"
    "fst (getForce ff hp x y intensity) < length (snd (getForce ff hp x y intensity))"
    "\<forall>a < length hp. snd (getForce ff hp x y intensity) ! a = hp ! a"
    by blast+
  from g have "snd (getForce ff hp x y intensity) ! fst (getForce ff hp x y intensity)
       = vmult (case js_read (field ff) (force_index ff x y) of
                  Some a \<Rightarrow> hp ! a
                | None \<Rightarrow> createVector 0 0) intensity"
    by blast
  then have v: "snd (getForce ff hp x y intensity) ! fst (getForce ff hp x y intensity)
       = vmult (case field ff ! nat (force_index ff x y) of
                  Some a \<Rightarrow> hp ! a
                | None \<Rightarrow> createVector 0 0) intensity"
    unfolding r .
  have z: "field ff ! nat (force_index ff x y) = None \<longrightarrow>
        snd (getForce ff hp x y intensity) ! fst (getForce ff hp x y intensity) = createVector 0 0"
    unfolding v by (simp add: vmult_def createVector_def)
  from run_flowfield[of h evs s] run_refs_ok[of h evs s]
  have e: "\<exists>ff'. flowfield (run h evs s) = Some ff' \<and> 1 \<le> cols ff' \<and> 1 \<le> rows ff' \<and>
        resolution ff' \<noteq> 0 \<and> length (field ff') = nat (cols ff' * rows ff') \<and>
        refs_ok ff' (vectors (run h evs s))"
    by (auto simp: ff_shape_def nat_mult_distrib)
  show ?thesis using b(1) b2 r g2 v z e by blast
qed

text \<open>
  Two cells, the first one holding the vector (3, 4): the force at (5, 0) with intensity 2
  is a new vector (6, 8), and the stored one is still (3, 4); the second cell is
  \<open>undefined\<close> and gives the zero vector.
\<close>

theorem getForce_total_witness:
  "1 \<le> cols (two_cells\<lparr>field := [Some 0, None]\<rparr>) \<and>
   1 \<le> rows (two_cells\<lparr>field := [Some 0, None]\<rparr>) \<and>
   resolution (two_cells\<lparr>field := [Some 0, None]\<rparr>) \<noteq> 0 \<and>
   refs_ok (two_cells\<lparr>field := [Some 0, None]\<rparr>) [(3, 4)] \<and>
   force_index (two_cells\<lparr>field := [Some 0, None]\<rparr>) 5 0 = 0 \<and>
   force_index (two_cells\<lparr>field := [Some 0, None]\<rparr>) 1000 (- 7) = 1 \<and>
   getForce (two_cells\<lparr>field := [Some 0, None]\<rparr>) [(3, 4)] 5 0 2 = (1, [(3, 4), (6, 8)]) \<and>
   getForce (two_cells\<lparr>field := [Some 0, None]\<rparr>) [(3, 4)] 1000 (- 7) 2
     = (2, [(3, 4), (0, 0), (0, 0)]) \<and>
   length [(3, 4) :: vec] \<le> fst (getForce (two_cells\<lparr>field := [Some 0, None]\<rparr>) [(3, 4)] 5 0 2)"
proof -
  let ?ff = "two_cells\<lparr>field := [Some 0, None]\<rparr>"
  have a: "1 \<le> cols ?ff" "1 \<le> rows ?ff" "resolution ?ff \<noteq> 0"
    "length (field ?ff) = nat (cols ?ff * rows ?ff)" "refs_ok ?ff [(3, 4)]"
    by (simp_all add: two_cells_def refs_ok_def)
  have i0: "force_index ?ff 5 0 = 0"
    by (simp add: force_index_def two_cells_def constrain_def)
  have i1: "force_index ?ff 1000 (- 7) = 1"
    by (simp add: force_index_def two_cells_def constrain_def)
  have g0: "getForce ?ff [(3, 4)] 5 0 2 = (1, [(3, 4), (6, 8)])"
    by (simp add: getForce_def two_cells_def constrain_def Let_def js_read_def valloc_def
        vmult_at_def vmult_def)
  have g1: "getForce ?ff [(3, 4)] 1000 (- 7) 2 = (2, [(3, 4), (0, 0), (0, 0)])"
    by (simp add: getForce_def two_cells_def constrain_def Let_def js_read_def valloc_def
        vmult_at_def vmult_def createVector_def)
  from getForce_total[OF a, of 5 0 2 quiet_host "[]" blank] a i0 i1 g0 g1
  show ?thesis by simp
qed

subsection \<open>The noise injection on a canvas of fractional width\<close>

text \<open>
  Claim C4 says that the pass perturbs every pixel whose brightness is below 180.  It does
  so on a canvas of whole-number size (\<open>noise_on_whole_canvas\<close> above), which is what
  \<open>setup\<close> creates.  After \<open>windowResized\<close> with a window 501 wide the width is
  400.8, and the index \<open>(x + y * width) * 4\<close> of row 1 is not a whole number: every run
  of the loop body on that row leaves the array as it is, whatever it holds, and the whole
  pass never writes the elements 1604 to 1606, on any host and array.  On a host with a
  black canvas and draws of 0.75 these three elements are 0 after the frame that
  \<open>resizeCanvas\<close> draws: a pixel of brightness 0 that is not perturbed, where the
  amount \<open>random(-6, 6) * emotionalIntensity\<close> added to each channel would have stored
  2 or more.
\<close>

theorem noise_skips_dark_pixels:
  "width resized = 2004 / 5 \<and> height resized = 800 \<and>
   (\<forall>h e x p. noise_px h e ((real x + real (Suc 0) * width resized) * 4) p = p) \<and>
   (\<forall>h ps k. fst (noise_rows h resized 0 (ps, k)) ! 1604 = ps ! 1604 \<and>
             fst (noise_rows h resized 0 (ps, k)) ! 1605 = ps ! 1605 \<and>
             fst (noise_rows h resized 0 (ps, k)) ! 1606 = ps ! 1606) \<and>
   length (pixels resized) = 1280000 \<and>
   pixels resized ! 1604 = 0 \<and> pixels resized ! 1605 = 0 \<and> pixels resized ! 1606 = 0 \<and>
   brightness (replicate 1280000 0) 1604 < 180 \<and>
   (\<forall>j. 2 \<le> u8clamp (constrain (real (replicate 1280000 0 ! 1604)
                   + random2 (rnd night j) (- 6) 6 * emotionalIntensity resized) 0 255))"
proof (intro conjI allI)
  show "width resized = 2004 / 5" "height resized = 800" by (rule resized_size)+
  show "noise_px h e ((real x + real (Suc 0) * width resized) * 4) p = p" for h e x p
    unfolding resized_size by (rule row_one_skipped)
  have keep: "fst (noise_rows h S 0 (ps, k)) ! j = ps ! j"
    if "width S = 2004 / 5" "j = 1604 \<or> j = 1605 \<or> j = 1606" for h S ps k j
    using noise_rows_frame[of 0 S j h "(ps, k)"] row_one_apart[OF _ that(2)] that(1) by simp
  show "fst (noise_rows h resized 0 (ps, k)) ! 1604 = ps ! 1604"
       "fst (noise_rows h resized 0 (ps, k)) ! 1605 = ps ! 1605"
       "fst (noise_rows h resized 0 (ps, k)) ! 1606 = ps ! 1606" for h ps k
    using keep[OF resized_size(1)] by simp_all
  from resized_pixels obtain S d where
    S: "width S = 2004 / 5" "pixels resized = fst (noise_rows night S 0 (replicate 1280000 0, d))"
    by blast
  show "length (pixels resized) = 1280000" unfolding S(2) by (simp add: noise_rows_length)
  show "pixels resized ! 1604 = 0" "pixels resized ! 1605 = 0" "pixels resized ! 1606 = 0"
    unfolding S(2) using keep[OF S(1)] by simp_all
  show "brightness (replicate 1280000 0) 1604 < 180" by (simp add: brightness_def)
  have e: "1 / 2 \<le> emotionalIntensity resized" "emotionalIntensity resized \<le> 1"
    unfolding resized_def using run_intensity_ge[of "[WindowResized 501 1000 1]" night blank]
      run_intensity_le[of night "[WindowResized 501 1000 1]" blank]
    by simp_all
  show "2 \<le> u8clamp (constrain (real (replicate 1280000 0 ! 1604)
                   + random2 (rnd night j) (- 6) 6 * emotionalIntensity resized) 0 255)" for j
    using stored_ge_2[OF e] by (simp add: night_def)
qed

end
